theory Spec2Isabelle
  imports Complex_Main "HOL-Library.Multiset" "HOL-Library.AList" "HOL-Library.Log_Nat"
begin

section \<open>Conventions of the embedding\<close>

text \<open>
  The program is TypeScript. Its values are embedded as follows.
  \<^item> A \<open>number\<close> is an exact \<^typ>\<open>real\<close>: the arithmetic of the model is the arithmetic
    the formulas of the program denote. \<open>NaN\<close> and the infinities are outside the model.
    The rounding of IEEE doubles, which equalities with decimal values depend on, is made
    explicit for the penalty engine: the section on double precision repeats it with every
    operation rounded to the nearest double.
  \<^item> An optional field, and a field holding \<open>undefined\<close> or \<open>null\<close>, is an \<open>option\<close>
    with \<open>None\<close> for the absent value.
  \<^item> \<open>new Date(s).getTime()\<close> is the host's date parser. It is a parameter \<open>tm\<close> of every
    function that orders logs by date; \<open>None\<close> stands for an invalid date (\<open>NaN\<close>).
  \<^item> \<open>Array.prototype.sort\<close> is stable. It is embedded as a stable insertion sort driven
    by the comparator of the call site; a comparator result that is \<open>NaN\<close> counts as 0.
    Where a date does not parse the date comparator is no longer a weak order and the
    language leaves the order to the engine: the activity filter therefore takes the
    host's sort as a parameter \<open>srt\<close>, of which only the contract \<open>hostSort\<close> is assumed.
  \<^item> A \<open>Map\<close> iterates in insertion order and is an association list.
\<close>

section \<open>Host-language helpers\<close>

text \<open>\<open>String.prototype.toUpperCase\<close> on the ASCII letters.\<close>

definition upperChar :: "char \<Rightarrow> char" where
  "upperChar c =
     (case map_of (zip ''abcdefghijklmnopqrstuvwxyz'' ''ABCDEFGHIJKLMNOPQRSTUVWXYZ'') c of
        Some u \<Rightarrow> u
      | None \<Rightarrow> c)"

definition toUpperCase :: "string \<Rightarrow> string" where
  "toUpperCase s = map upperChar s"

text \<open>\<open>position?.toUpperCase() === p\<close>: an absent position equals no string.\<close>

definition positionIs :: "string option \<Rightarrow> string \<Rightarrow> bool" where
  "positionIs pos p = (case pos of None \<Rightarrow> False | Some s \<Rightarrow> toUpperCase s = p)"

text \<open>Truthiness of an optional string: \<open>undefined\<close> and the empty string are falsy.\<close>

definition truthy :: "string option \<Rightarrow> bool" where
  "truthy s = (case s of None \<Rightarrow> False | Some t \<Rightarrow> t \<noteq> [])"

text \<open>\<open>xs.sort(cmp)\<close>: the element \<open>x\<close> stays in front of \<open>y\<close> unless \<open>cmp x y > 0\<close>.\<close>

fun sortInsert :: "('a \<Rightarrow> 'a \<Rightarrow> real) \<Rightarrow> 'a \<Rightarrow> 'a list \<Rightarrow> 'a list" where
  "sortInsert cmp x [] = [x]"
| "sortInsert cmp x (y # ys) =
     (if cmp x y \<le> 0 then x # y # ys else y # sortInsert cmp x ys)"

definition arraySort :: "('a \<Rightarrow> 'a \<Rightarrow> real) \<Rightarrow> 'a list \<Rightarrow> 'a list" where
  "arraySort cmp xs = foldr (sortInsert cmp) xs []"

text \<open>
  A comparator is consistent on the elements of an array when it is a weak order there:
  swapping the arguments swaps the sign, and "not after" is transitive. For such a
  comparator the stable sorted arrangement is unique, and \<open>Array.prototype.sort\<close> returns
  it; for any other comparator the language leaves the order to the engine, and only
  promises a rearrangement of the array. \<open>hostSort\<close> is this contract of the host's sort.
\<close>

definition consistentOn :: "('a \<Rightarrow> 'a \<Rightarrow> real) \<Rightarrow> 'a set \<Rightarrow> bool" where
  "consistentOn cmp A =
     ((\<forall>a \<in> A. \<forall>b \<in> A. (cmp a b < 0) = (0 < cmp b a))
      \<and> (\<forall>a \<in> A. \<forall>b \<in> A. \<forall>c \<in> A. cmp a b \<le> 0 \<and> cmp b c \<le> 0 \<longrightarrow> cmp a c \<le> 0))"

definition hostSort :: "(('a \<Rightarrow> 'a \<Rightarrow> real) \<Rightarrow> 'a list \<Rightarrow> 'a list) \<Rightarrow> bool" where
  "hostSort srt =
     (\<forall>cmp xs. mset (srt cmp xs) = mset xs
        \<and> (consistentOn cmp (set xs) \<longrightarrow> srt cmp xs = arraySort cmp xs))"

text \<open>\<open>xs.slice(0, e)\<close>: a negative end counts from the end of the array.\<close>

definition slice0 :: "'a list \<Rightarrow> int \<Rightarrow> 'a list" where
  "slice0 xs e = (if e < 0 then take (nat (int (length xs) + e)) xs else take (nat e) xs)"

text \<open>Decimal rendering of integers, as a template literal prints them.\<close>

fun showNat :: "nat \<Rightarrow> string" where
  "showNat n =
     (if n < 10 then [''0123456789'' ! n]
      else showNat (n div 10) @ [''0123456789'' ! (n mod 10)])"

definition showInt :: "int \<Rightarrow> string" where
  "showInt i = (if i < 0 then ''-'' @ showNat (nat (- i)) else showNat (nat i))"

text \<open>
  \<open>x.toFixed(1)\<close>: the sign, then the nearest multiple of one tenth to the magnitude, the
  larger one at a tie.
\<close>

definition toFixed1 :: "real \<Rightarrow> string" where
  "toFixed1 x =
     (let a = \<bar>x\<bar>;
          n = nat \<lfloor>a * 10 + 1 / 2\<rfloor>;
          body = showNat (n div 10) @ ''.'' @ showNat (n mod 10)
      in if x < 0 then ''-'' @ body else body)"

section \<open>Data model (types)\<close>

datatype StatType = ST_pass_yards | ST_rush_yards | ST_rec_yards | ST_receptions | ST_pass_tds

datatype ConfidenceLevel = Speculative | Fair | Strong | Elite

datatype error = TypeError

text \<open>
  \<open>GameLog\<close>. The fields \<open>rush_attempts\<close> and \<open>targets\<close> are not declared by the interface;
  the touches filter reads them through the index signature.
\<close>

record GameLog =
  playerId :: string
  playerName :: "string option"
  gameDate :: string
  gameId :: "string option"
  week :: "real option"
  season :: "real option"
  team :: "string option"
  opponent :: "string option"
  position :: "string option"
  snaps :: "real option"
  pass_yards :: "real option"
  rush_yards :: "real option"
  rec_yards :: "real option"
  receptions :: "real option"
  pass_tds :: "real option"
  rush_attempts :: "real option"
  targets :: "real option"

text \<open>The result object of \<open>calculateProbability\<close>.\<close>

record ProbabilityResult =
  rawProb :: real
  smoothedProb :: real
  sampleSize :: nat
  lastNGameValues :: "real list"
  consistency :: real

record Leg =
  playerId :: string
  playerName :: "string option"
  statType :: StatType
  threshold :: real
  smoothedProb :: real
  rawProb :: real
  confidence :: ConfidenceLevel
  sampleSize :: nat
  lastNGameValues :: "real list"
  consistency :: "real option"
  reason :: "string option"
  gameId :: "string option"
  gameDate :: "string option"
  team :: "string option"
  opponent :: "string option"
  position :: "string option"

section \<open>Probability engine\<close>

text \<open>\<open>STAT_THRESHOLDS\<close>, in the order \<open>Object.entries\<close> lists its keys.\<close>

definition STAT_THRESHOLDS :: "(StatType \<times> real list) list" where
  "STAT_THRESHOLDS =
     [(ST_pass_yards, [150, 175, 200, 225]),
      (ST_rush_yards, [25, 40, 50, 60]),
      (ST_rec_yards, [25, 40, 50, 60]),
      (ST_receptions, [2, 3, 4, 5]),
      (ST_pass_tds, [1])]"

text \<open>\<open>log[statType]\<close>.\<close>

fun statOf :: "StatType \<Rightarrow> GameLog \<Rightarrow> real option" where
  "statOf ST_pass_yards l = pass_yards l"
| "statOf ST_rush_yards l = rush_yards l"
| "statOf ST_rec_yards l = rec_yards l"
| "statOf ST_receptions l = receptions l"
| "statOf ST_pass_tds l = pass_tds l"

definition DEFAULT_MIN_PROBABILITY :: real where "DEFAULT_MIN_PROBABILITY = 0.80"
definition DEFAULT_MIN_SAMPLE_SIZE :: real where "DEFAULT_MIN_SAMPLE_SIZE = 6"
definition DEFAULT_MIN_TOUCHES_PER_GAME :: real where "DEFAULT_MIN_TOUCHES_PER_GAME = 5"
definition DEFAULT_BETA_A :: real where "DEFAULT_BETA_A = 4"
definition DEFAULT_BETA_B :: real where "DEFAULT_BETA_B = 2"

definition calculateStandardDeviation :: "real list \<Rightarrow> real" where
  "calculateStandardDeviation vals =
     (if length vals = 0 then 0
      else if length vals = 1 then 0
      else
        let mean = foldl (\<lambda>sum val. sum + val) 0 vals / real (length vals);
            variance = foldl (\<lambda>sum val. sum + (val - mean) ^ 2) 0 vals / real (length vals)
        in sqrt variance)"

text \<open>The values that survive \<open>.map(log => log[statType]).filter(val => val != null)\<close>.\<close>

definition statValues :: "StatType \<Rightarrow> GameLog list \<Rightarrow> real list" where
  "statValues st gameLogs = List.map_filter (statOf st) gameLogs"

definition calculateProbability ::
  "GameLog list \<Rightarrow> StatType \<Rightarrow> real \<Rightarrow> real \<Rightarrow> real \<Rightarrow> ProbabilityResult" where
  "calculateProbability gameLogs st thr betaA betaB =
     (if length gameLogs = 0 then
        \<lparr>ProbabilityResult.rawProb = 0, smoothedProb = 0, sampleSize = 0,
         lastNGameValues = [], consistency = 0\<rparr>
      else
        let vals = statValues st gameLogs in
        if length vals = 0 then
          \<lparr>ProbabilityResult.rawProb = 0, smoothedProb = 0, sampleSize = 0,
           lastNGameValues = [], consistency = 0\<rparr>
        else
          let n = length vals;
              countAboveThreshold = length (filter (\<lambda>val. val \<ge> thr) vals)
          in \<lparr>ProbabilityResult.rawProb = real countAboveThreshold / real n,
              smoothedProb = (real countAboveThreshold + betaA) / (real n + betaA + betaB),
              sampleSize = n,
              lastNGameValues = vals,
              consistency = calculateStandardDeviation vals\<rparr>)"

subsection \<open>The touches filter\<close>

text \<open>
  The body of the loop of \<open>calculateAverageTouchesPerGame\<close>: the touches of one log, for the
  upper-cased position \<open>pos\<close> of the first log. \<open>Math.round\<close> rounds a half upwards.
\<close>

definition logTouches :: "string option \<Rightarrow> GameLog \<Rightarrow> real" where
  "logTouches pos lg =
     (if pos = Some ''RB'' then
        (case rush_attempts lg of
           Some a \<Rightarrow> a
         | None \<Rightarrow> (case rush_yards lg of
                      Some y \<Rightarrow> real_of_int \<lfloor>y / 4.5 + 1 / 2\<rfloor>
                    | None \<Rightarrow> 0))
        + (case receptions lg of Some r \<Rightarrow> r | None \<Rightarrow> 0)
      else if pos = Some ''WR'' \<or> pos = Some ''TE'' then
        (case targets lg of
           Some t \<Rightarrow> t
         | None \<Rightarrow> (case receptions lg of Some r \<Rightarrow> r | None \<Rightarrow> 0))
      else 0)"

text \<open>One iteration: the pair is \<open>(totalTouches, gamesWithData)\<close>.\<close>

definition touchesStep :: "string option \<Rightarrow> GameLog \<Rightarrow> real \<times> nat \<Rightarrow> real \<times> nat" where
  "touchesStep pos lg acc =
     (let touches = logTouches pos lg
      in if touches > 0 then (fst acc + touches, snd acc + 1) else acc)"

definition calculateAverageTouchesPerGame :: "GameLog list \<Rightarrow> real" where
  "calculateAverageTouchesPerGame gameLogs =
     (case gameLogs of
        [] \<Rightarrow> 0
      | first # _ \<Rightarrow>
          let pos = map_option toUpperCase (GameLog.position first) in
          if pos = Some ''QB'' then 100
          else
            let acc = fold (touchesStep pos) gameLogs (0, 0)
            in if snd acc > 0 then fst acc / real (snd acc) else 0)"

subsection \<open>Leg generation\<close>

text \<open>In the model every present value is a number, so the \<open>isNaN\<close> test filters nothing.\<close>

definition hasSufficientStatData :: "GameLog list \<Rightarrow> StatType \<Rightarrow> real \<Rightarrow> bool" where
  "hasSufficientStatData gameLogs st minCount =
     (if length gameLogs = 0 then False
      else real (length (statValues st gameLogs)) \<ge> minCount)"

definition getConfidenceLevel :: "real \<Rightarrow> ConfidenceLevel" where
  "getConfidenceLevel p =
     (if p \<ge> 0.85 then Elite
      else if p \<ge> 0.75 then Strong
      else if p \<ge> 0.65 then Fair
      else Speculative)"

fun statName :: "StatType \<Rightarrow> string" where
  "statName ST_pass_yards = ''pass_yards''"
| "statName ST_rush_yards = ''rush_yards''"
| "statName ST_rec_yards = ''rec_yards''"
| "statName ST_receptions = ''receptions''"
| "statName ST_pass_tds = ''pass_tds''"

definition generateLegReason ::
  "StatType \<Rightarrow> real \<Rightarrow> real \<Rightarrow> nat \<Rightarrow> real list \<Rightarrow> real \<Rightarrow> string" where
  "generateLegReason st thr rawProbability n vals mostRecentValue =
     (let hitRate = \<lfloor>rawProbability * 100 + 1 / 2\<rfloor>;
          average = foldl (\<lambda>sum val. sum + val) 0 vals / real (length vals);
          avgDiff = average - thr;
          recentHit = (mostRecentValue \<ge> thr);
          statDisplay = map (\<lambda>c. if c = CHR ''_'' then CHR '' '' else c) (statName st);
          avgText = (if avgDiff \<ge> 0 then showInt \<lfloor>avgDiff + 1 / 2\<rfloor> @ '' above''
                     else showInt \<bar>\<lfloor>avgDiff + 1 / 2\<rfloor>\<bar> @ '' below'');
          recentText = (if recentHit then ''hit'' else ''missed'')
      in ''Hit '' @ showInt hitRate @ ''% over last '' @ showNat n @ '' games, averaging ''
         @ showInt \<lfloor>average + 1 / 2\<rfloor> @ '' '' @ statDisplay @ '' ('' @ avgText
         @ '' threshold). Most recent: '' @ showInt \<lfloor>mostRecentValue + 1 / 2\<rfloor> @ '' ''
         @ statDisplay @ '' ('' @ recentText @ '').'')"

text \<open>
  The inner loop over the thresholds of one statistic. It stops at the first threshold
  that passes the filters (\<open>break\<close>) and yields the leg pushed there, if any. Reading
  \<open>sortedLogs[0].gameId\<close> on an empty array would throw.
\<close>

fun thresholdLoop ::
  "string \<Rightarrow> string option \<Rightarrow> GameLog list \<Rightarrow> StatType \<Rightarrow> real \<Rightarrow> real \<Rightarrow> real list
   \<Rightarrow> error + Leg option" where
  "thresholdLoop pid pname sortedLogs st minProbability minSampleSize [] = Inr None"
| "thresholdLoop pid pname sortedLogs st minProbability minSampleSize (thr # rest) =
     (let r = calculateProbability sortedLogs st thr DEFAULT_BETA_A DEFAULT_BETA_B in
      if real (ProbabilityResult.sampleSize r) \<ge> minSampleSize
         \<and> ProbabilityResult.smoothedProb r \<ge> minProbability
         \<and> length (ProbabilityResult.lastNGameValues r) > 0
      then
        (case sortedLogs of
           [] \<Rightarrow> Inl TypeError
         | mostRecentLog # _ \<Rightarrow>
             let mostRecentValue = ProbabilityResult.lastNGameValues r ! 0;
                 reasonText = generateLegReason st thr (ProbabilityResult.rawProb r)
                    (ProbabilityResult.sampleSize r) (ProbabilityResult.lastNGameValues r)
                    mostRecentValue
             in Inr (Some
                  \<lparr>Leg.playerId = pid,
                   playerName = pname,
                   statType = st,
                   threshold = thr,
                   smoothedProb = ProbabilityResult.smoothedProb r,
                   rawProb = ProbabilityResult.rawProb r,
                   confidence = getConfidenceLevel (ProbabilityResult.smoothedProb r),
                   sampleSize = ProbabilityResult.sampleSize r,
                   lastNGameValues = ProbabilityResult.lastNGameValues r,
                   consistency = Some (ProbabilityResult.consistency r),
                   reason = Some reasonText,
                   gameId = GameLog.gameId mostRecentLog,
                   gameDate = Some (GameLog.gameDate mostRecentLog),
                   team = GameLog.team mostRecentLog,
                   opponent = GameLog.opponent mostRecentLog,
                   position = GameLog.position mostRecentLog\<rparr>))
      else thresholdLoop pid pname sortedLogs st minProbability minSampleSize rest)"

text \<open>The outer loop over the entries of \<open>STAT_THRESHOLDS\<close>; \<open>legs\<close> is the array being filled.\<close>

fun statLoop ::
  "string \<Rightarrow> string option \<Rightarrow> GameLog list \<Rightarrow> real \<Rightarrow> real \<Rightarrow> (StatType \<times> real list) list
   \<Rightarrow> Leg list \<Rightarrow> error + Leg list" where
  "statLoop pid pname sortedLogs minProbability minSampleSize [] legs = Inr legs"
| "statLoop pid pname sortedLogs minProbability minSampleSize ((st, thresholds) # rest) legs =
     (if \<not> hasSufficientStatData sortedLogs st 4 then
        statLoop pid pname sortedLogs minProbability minSampleSize rest legs
      else
        (case thresholdLoop pid pname sortedLogs st minProbability minSampleSize thresholds of
           Inl e \<Rightarrow> Inl e
         | Inr None \<Rightarrow> statLoop pid pname sortedLogs minProbability minSampleSize rest legs
         | Inr (Some leg) \<Rightarrow>
             statLoop pid pname sortedLogs minProbability minSampleSize rest (legs @ [leg])))"

text \<open>The filter of the inner loop, as the program evaluates it.\<close>

definition passesFilters :: "GameLog list \<Rightarrow> StatType \<Rightarrow> real \<Rightarrow> real \<Rightarrow> real \<Rightarrow> bool" where
  "passesFilters ls st minP minS thr =
     (let r = calculateProbability ls st thr DEFAULT_BETA_A DEFAULT_BETA_B in
      real (ProbabilityResult.sampleSize r) \<ge> minS
      \<and> ProbabilityResult.smoothedProb r \<ge> minP
      \<and> length (ProbabilityResult.lastNGameValues r) > 0)"

text \<open>The comparator \<open>new Date(b.gameDate).getTime() - new Date(a.gameDate).getTime()\<close>.\<close>

definition dateDesc :: "(string \<Rightarrow> int option) \<Rightarrow> GameLog \<Rightarrow> GameLog \<Rightarrow> real" where
  "dateDesc tm a b =
     (case (tm (GameLog.gameDate b), tm (GameLog.gameDate a)) of
        (Some tb, Some ta) \<Rightarrow> real_of_int (tb - ta)
      | _ \<Rightarrow> 0)"

text \<open>The comparator of the final sort of the legs; \<open>consistency || 0\<close> reads an absent one as 0.\<close>

definition legCompare :: "Leg \<Rightarrow> Leg \<Rightarrow> real" where
  "legCompare a b =
     (if Leg.smoothedProb b \<noteq> Leg.smoothedProb a then Leg.smoothedProb b - Leg.smoothedProb a
      else (case Leg.consistency a of None \<Rightarrow> 0 | Some c \<Rightarrow> c)
           - (case Leg.consistency b of None \<Rightarrow> 0 | Some c \<Rightarrow> c))"

text \<open>
  \<open>sortedLogs\<close> of \<open>generateLegs\<close>: most recent first, cut to \<open>lastN\<close>, which defaults to the
  number of logs.
\<close>

definition selectLogs :: "(string \<Rightarrow> int option) \<Rightarrow> GameLog list \<Rightarrow> int option \<Rightarrow> GameLog list" where
  "selectLogs tm gameLogs lastN =
     slice0 (arraySort (dateDesc tm) gameLogs)
       (case lastN of None \<Rightarrow> int (length gameLogs) | Some n \<Rightarrow> n)"

text \<open>
  \<open>generateLegs\<close>. A caller that omits \<open>minProbability\<close>, \<open>minSampleSize\<close> or
  \<open>minTouchesPerGame\<close> passes \<open>DEFAULT_MIN_PROBABILITY\<close>, \<open>DEFAULT_MIN_SAMPLE_SIZE\<close> or
  \<open>DEFAULT_MIN_TOUCHES_PER_GAME\<close>.
\<close>

definition generateLegs ::
  "(string \<Rightarrow> int option) \<Rightarrow> string \<Rightarrow> string option \<Rightarrow> GameLog list \<Rightarrow> int option
   \<Rightarrow> real \<Rightarrow> real \<Rightarrow> real \<Rightarrow> error + Leg list" where
  "generateLegs tm pid pname gameLogs lastN minProbability minSampleSize minTouchesPerGame =
     (let sortedLogs = selectLogs tm gameLogs lastN;
          avgTouchesPerGame = calculateAverageTouchesPerGame sortedLogs
      in if avgTouchesPerGame < minTouchesPerGame then Inr []
         else
           (case statLoop pid pname sortedLogs minProbability minSampleSize STAT_THRESHOLDS [] of
              Inl e \<Rightarrow> Inl e
            | Inr legs \<Rightarrow> Inr (arraySort legCompare legs)))"

section \<open>Parlay combination and correlation penalties\<close>

record ParlayOptions =
  minLegs :: "real option"
  maxLegs :: "real option"
  maxLegsPerGame :: "real option"
  maxLegsPerTeam :: "real option"
  allowSameTeamStack :: "bool option"
  legCount :: "real option"
  singleGame :: "bool option"
  gameId :: "string option"
  minLegProb :: "real option"
  allowSameGame :: "bool option"

record PenaltyBreakdown =
  type :: string
  amount :: real
  reason :: string

record Parlay =
  legs :: "Leg list"
  estimatedProbability :: real
  estProbability :: "real option"
  penaltyBreakdown :: "PenaltyBreakdown list option"

definition isQBPassingYards :: "Leg \<Rightarrow> bool" where
  "isQBPassingYards leg = (statType leg = ST_pass_yards \<and> positionIs (Leg.position leg) ''QB'')"

definition isWRTEReceivingYards :: "Leg \<Rightarrow> bool" where
  "isWRTEReceivingYards leg =
     (statType leg = ST_rec_yards
      \<and> (positionIs (Leg.position leg) ''WR'' \<or> positionIs (Leg.position leg) ''TE''))"

definition violatesSameTeamStack :: "Leg \<Rightarrow> Leg \<Rightarrow> bool \<Rightarrow> bool" where
  "violatesSameTeamStack leg1 leg2 allowStack =
     (if allowStack then False
      else if \<not> truthy (Leg.team leg1) \<or> \<not> truthy (Leg.team leg2)
              \<or> Leg.team leg1 \<noteq> Leg.team leg2 then False
      else (isQBPassingYards leg1 \<and> isWRTEReceivingYards leg2)
           \<or> (isQBPassingYards leg2 \<and> isWRTEReceivingYards leg1))"

text \<open>\<open>leg.gameId || leg.gameDate || 'unknown'\<close>.\<close>

definition gameKeyOf :: "Leg \<Rightarrow> string" where
  "gameKeyOf leg =
     (if truthy (Leg.gameId leg) then the (Leg.gameId leg)
      else if truthy (Leg.gameDate leg) then the (Leg.gameDate leg)
      else ''unknown'')"

text \<open>\<open>(counts.get(key) || 0) + 1\<close>.\<close>

definition nextCount :: "(string \<times> nat) list \<Rightarrow> string \<Rightarrow> nat" where
  "nextCount counts key = (case map_of counts key of None \<Rightarrow> 0 | Some c \<Rightarrow> c) + 1"

text \<open>
  The loop of \<open>isValidParlay\<close> over the games: \<open>False\<close> is the early \<open>return false\<close> at a key
  seen before.
\<close>

fun gameLoop :: "Leg list \<Rightarrow> (string \<times> nat) list \<Rightarrow> bool" where
  "gameLoop [] gameCounts = True"
| "gameLoop (leg # rest) gameCounts =
     (let gameKey = gameKeyOf leg;
          count = nextCount gameCounts gameKey
      in if count > 1 then False
         else gameLoop rest (AList.update gameKey count gameCounts))"

text \<open>The nested loops over the pairs \<open>i < j\<close>: \<open>True\<close> when some pair violates the rule.\<close>

fun stackLoop :: "Leg list \<Rightarrow> bool \<Rightarrow> bool" where
  "stackLoop [] allowStack = False"
| "stackLoop (leg # rest) allowStack =
     (list_ex (\<lambda>other. violatesSameTeamStack leg other allowStack) rest
      \<or> stackLoop rest allowStack)"

definition isValidParlay :: "Leg list \<Rightarrow> real \<Rightarrow> bool \<Rightarrow> bool \<Rightarrow> bool" where
  "isValidParlay ls cnt allowGame allowStack =
     (if real (length ls) \<noteq> cnt then False
      else if length (remdups (map Leg.playerId ls)) \<noteq> length (map Leg.playerId ls) then False
      else if \<not> allowGame \<and> \<not> gameLoop ls [] then False
      else if \<not> allowStack \<and> stackLoop ls allowStack then False
      else True)"

definition calculateParlayProbability :: "Leg list \<Rightarrow> real" where
  "calculateParlayProbability ls = foldl (\<lambda>product leg. product * Leg.smoothedProb leg) 1 ls"

text \<open>The running state of \<open>calculateParlayPenalties\<close>: \<open>multiplier\<close> and \<open>penalties\<close>.\<close>

type_synonym penaltyState = "real \<times> PenaltyBreakdown list"

definition gameCountsOf :: "Leg list \<Rightarrow> (string \<times> nat) list" where
  "gameCountsOf ls =
     fold (\<lambda>leg counts. AList.update (gameKeyOf leg) (nextCount counts (gameKeyOf leg)) counts)
       ls []"

definition sameGameStep :: "string \<times> nat \<Rightarrow> penaltyState \<Rightarrow> penaltyState" where
  "sameGameStep entry st =
     (let gameKey = fst entry; count = snd entry in
      if count > 1 then
        let extraLegs = count - 1;
            penaltyMultiplier = (0.90 :: real) ^ extraLegs;
            penaltyAmount = 1 - penaltyMultiplier
        in (fst st * penaltyMultiplier,
            snd st @ [\<lparr>type = ''same_game'', amount = penaltyAmount,
                       reason = showNat count @ '' legs from same game ('' @ gameKey @ '') - ''
                                @ toFixed1 (penaltyAmount * 100) @ ''% penalty''\<rparr>])
      else st)"

text \<open>
  The loop that fills \<open>teamCounts\<close> and \<open>teamLegs\<close>; a leg without a team is skipped. The
  state is the pair of both containers.
\<close>

definition teamStep ::
  "Leg \<Rightarrow> (string \<times> nat) list \<times> (string \<times> Leg list) list
   \<Rightarrow> (string \<times> nat) list \<times> (string \<times> Leg list) list" where
  "teamStep leg st =
     (if truthy (Leg.team leg) then
        let tm = the (Leg.team leg);
            teamCounts = AList.update tm (nextCount (fst st) tm) (fst st);
            teamLegs = (if map_of (snd st) tm = None then snd st @ [(tm, [])] else snd st)
        in (teamCounts, AList.map_entry tm (\<lambda>group. group @ [leg]) teamLegs)
      else st)"

definition sameTeamStep :: "string \<times> nat \<Rightarrow> penaltyState \<Rightarrow> penaltyState" where
  "sameTeamStep entry st =
     (let tm = fst entry; count = snd entry in
      if count > 1 then
        let extraLegs = count - 1;
            penaltyMultiplier = (0.95 :: real) ^ extraLegs;
            penaltyAmount = 1 - penaltyMultiplier
        in (fst st * penaltyMultiplier,
            snd st @ [\<lparr>type = ''same_team'', amount = penaltyAmount,
                       reason = showNat count @ '' legs from '' @ tm @ '' - ''
                                @ toFixed1 (penaltyAmount * 100) @ ''% penalty''\<rparr>])
      else st)"

definition stackStep :: "string \<times> Leg list \<Rightarrow> penaltyState \<Rightarrow> penaltyState" where
  "stackStep teamGroup st =
     (let hasQBPass = list_ex isQBPassingYards (snd teamGroup);
          hasWRTERec = list_ex isWRTEReceivingYards (snd teamGroup)
      in if hasQBPass \<and> hasWRTERec then
           (fst st * 0.85,
            snd st @ [\<lparr>type = ''qb_wr_stack'', amount = 0.15,
                       reason = ''QB pass yards + WR/TE rec yards from '' @ fst teamGroup
                                @ '' - 15% penalty''\<rparr>])
         else st)"

text \<open>\<open>calculateParlayPenalties\<close> returns the pair (\<open>adjustedProbability\<close>, \<open>penalties\<close>).\<close>

definition calculateParlayPenalties :: "Leg list \<Rightarrow> real \<times> PenaltyBreakdown list" where
  "calculateParlayPenalties ls =
     (let baseProbability = calculateParlayProbability ls;
          gameCounts = gameCountsOf ls;
          st1 = fold sameGameStep gameCounts (1.0, []);
          teams = fold teamStep ls ([], []);
          st2 = fold sameTeamStep (fst teams) st1;
          st3 = fold stackStep (snd teams) st2;
          adjustedProbability = baseProbability * fst st3
      in (max adjustedProbability 0, snd st3))"

text \<open>
  The part of \<open>calculateParlayPenalties\<close> after the same-game loop: the same-team loop and
  the stack loop, run from a given state.
\<close>

definition teamPenalties :: "Leg list \<Rightarrow> penaltyState \<Rightarrow> penaltyState" where
  "teamPenalties ls st =
     (let teams = fold teamStep ls ([], [])
      in fold stackStep (snd teams) (fold sameTeamStep (fst teams) st))"

text \<open>A later loop scales the multiplier by a factor in (0, 1] and appends its own entries.\<close>

definition scalesBy :: "(penaltyState \<Rightarrow> penaltyState) \<Rightarrow> bool" where
  "scalesBy g = (\<exists>m ps. 0 < m \<and> m \<le> 1
       \<and> (\<forall>p \<in> set ps. type p = ''same_team'' \<or> type p = ''qb_wr_stack'')
       \<and> (\<forall>st. g st = (fst st * m, snd st @ ps)))"

text \<open>The leaf of \<open>generateCombinations\<close>: the parlay pushed for a valid combination.\<close>

definition makeParlay :: "Leg list \<Rightarrow> Parlay" where
  "makeParlay current =
     (let res = calculateParlayPenalties current in
      \<lparr>legs = current,
       estimatedProbability = fst res,
       estProbability = Some (fst res),
       penaltyBreakdown = (if length (snd res) > 0 then Some (snd res) else None)\<rparr>)"

text \<open>
  \<open>generateCombinations\<close>. The closure reads \<open>legCount\<close>, \<open>allowSameGame\<close> and
  \<open>allowSameTeamStack\<close> and appends to \<open>parlays\<close>; here they are arguments, and the array
  \<open>parlays\<close> is threaded through.
\<close>

function generateCombinations ::
  "real \<Rightarrow> bool \<Rightarrow> bool \<Rightarrow> Leg list \<Rightarrow> real \<Rightarrow> nat \<Rightarrow> Leg list \<Rightarrow> Parlay list \<Rightarrow> Parlay list" where
  "generateCombinations cnt allowGame allowStack arr sz start current parlays =
     (if real (length current) = sz then
        (if isValidParlay current cnt allowGame allowStack
         then parlays @ [makeParlay current]
         else parlays)
      else
        fold (\<lambda>i ps. generateCombinations cnt allowGame allowStack arr sz (i + 1)
                        (current @ [arr ! i]) ps)
          [start ..< length arr] parlays)"
  by pat_completeness auto
termination
  by (relation "measure (\<lambda>(cnt, allowGame, allowStack, arr, sz, start, current, parlays).
        length arr - start)") auto

declare generateCombinations.simps [simp del]

text \<open>The mean of the legs' smoothed probabilities, \<open>_avgLegProb\<close>.\<close>

definition avgLegProb :: "Parlay \<Rightarrow> real" where
  "avgLegProb parlay =
     foldl (\<lambda>sum leg. sum + Leg.smoothedProb leg) 0 (legs parlay) / real (length (legs parlay))"

text \<open>
  The comparator of the final sort. A missing \<open>estProbability\<close> would make the difference
  \<open>NaN\<close>, which the sort reads as 0.
\<close>

definition parlayCompare :: "Parlay \<times> real \<Rightarrow> Parlay \<times> real \<Rightarrow> real" where
  "parlayCompare a b =
     (case (estProbability (fst b), estProbability (fst a)) of
        (Some pb, Some pa) \<Rightarrow> (if pb - pa \<noteq> 0 then pb - pa else snd b - snd a)
      | _ \<Rightarrow> 0)"

definition generateParlays :: "Leg list \<Rightarrow> ParlayOptions \<Rightarrow> Parlay list" where
  "generateParlays candidateLegs options =
     (let cnt = max 2 (min 8 (case legCount options of None \<Rightarrow> 3 | Some c \<Rightarrow> c));
          minProb = (case minLegProb options of None \<Rightarrow> 0.80 | Some q \<Rightarrow> q);
          single = (case singleGame options of None \<Rightarrow> False | Some b \<Rightarrow> b);
          allowGame = (if single then True
                       else (case allowSameGame options of None \<Rightarrow> False | Some b \<Rightarrow> b));
          allowStack = (case allowSameTeamStack options of None \<Rightarrow> False | Some b \<Rightarrow> b);
          filteredLegs = filter (\<lambda>leg. Leg.smoothedProb leg \<ge> minProb) candidateLegs;
          filteredLegs = (if single \<and> truthy (ParlayOptions.gameId options)
                          then filter (\<lambda>leg. Leg.gameId leg = ParlayOptions.gameId options)
                                 filteredLegs
                          else filteredLegs);
          parlays = generateCombinations cnt allowGame allowStack filteredLegs cnt 0 [] [];
          parlaysWithAvgProb = map (\<lambda>parlay. (parlay, avgLegProb parlay)) parlays
      in map fst (arraySort parlayCompare parlaysWithAvgProb))"

text \<open>\<open>getTopParlays\<close>; \<open>topN\<close> defaults to 20.\<close>

definition getTopParlays :: "Leg list \<Rightarrow> int option \<Rightarrow> ParlayOptions \<Rightarrow> Parlay list" where
  "getTopParlays candidateLegs topN options =
     slice0 (generateParlays candidateLegs options) (case topN of None \<Rightarrow> 20 | Some n \<Rightarrow> n)"

text \<open>The settings \<open>generateParlays\<close> resolves from its options.\<close>

definition resolvedLegCount :: "ParlayOptions \<Rightarrow> real" where
  "resolvedLegCount options = max 2 (min 8 (case legCount options of None \<Rightarrow> 3 | Some c \<Rightarrow> c))"

definition resolvedAllowSameGame :: "ParlayOptions \<Rightarrow> bool" where
  "resolvedAllowSameGame options =
     (if (case singleGame options of None \<Rightarrow> False | Some b \<Rightarrow> b) then True
      else (case allowSameGame options of None \<Rightarrow> False | Some b \<Rightarrow> b))"

definition resolvedAllowStack :: "ParlayOptions \<Rightarrow> bool" where
  "resolvedAllowStack options = (case allowSameTeamStack options of None \<Rightarrow> False | Some b \<Rightarrow> b)"

definition filteredLegsOf :: "Leg list \<Rightarrow> ParlayOptions \<Rightarrow> Leg list" where
  "filteredLegsOf candidateLegs options =
     (let minProb = (case minLegProb options of None \<Rightarrow> 0.80 | Some q \<Rightarrow> q);
          single = (case singleGame options of None \<Rightarrow> False | Some b \<Rightarrow> b);
          filteredLegs = filter (\<lambda>leg. Leg.smoothedProb leg \<ge> minProb) candidateLegs
      in if single \<and> truthy (ParlayOptions.gameId options)
         then filter (\<lambda>leg. Leg.gameId leg = ParlayOptions.gameId options) filteredLegs
         else filteredLegs)"

section \<open>The penalty engine in double precision\<close>

text \<open>
  A JavaScript number is an IEEE 754 binary64 value, and every arithmetic operation returns
  the exact result rounded to the nearest such value, a tie going to the value with the
  even significand. \<open>roundDouble\<close> is that rounding for the normal range (overflow and
  subnormal numbers are left out): the magnitude is scaled by a power of two into the
  range from \<open>2^52\<close> to \<open>2^53\<close>, rounded to an integer, and scaled back. A decimal literal of
  the program denotes the rounding of its decimal value.
\<close>

definition roundHalfEven :: "real \<Rightarrow> int" where
  "roundHalfEven x =
     (let f = \<lfloor>x\<rfloor>; d = x - real_of_int f
      in if d < 1 / 2 then f else if 1 / 2 < d then f + 1 else if even f then f else f + 1)"

definition significandShift :: "real \<Rightarrow> int" where
  "significandShift a =
     (if 1 \<le> a then 53 - bitlen \<lfloor>a\<rfloor> else 52 + bitlen \<lfloor>1 / a\<rfloor>)"

definition scaleBy2 :: "real \<Rightarrow> int \<Rightarrow> real" where
  "scaleBy2 a s = (if 0 \<le> s then a * 2 ^ nat s else a / 2 ^ nat (- s))"

definition roundDouble :: "real \<Rightarrow> real" where
  "roundDouble x =
     (if x = 0 then 0
      else
        let s = significandShift \<bar>x\<bar>;
            r = scaleBy2 (real_of_int (roundHalfEven (scaleBy2 \<bar>x\<bar> s))) (- s)
        in if x < 0 then - r else r)"

text \<open>
  \<open>calculateParlayProbability\<close> and \<open>calculateParlayPenalties\<close> once more, line by line, with
  a rounding \<open>fl\<close> applied to every decimal literal and to the result of every arithmetic
  operation on numbers. With the identity for \<open>fl\<close> these are the definitions of the
  previous section; with \<open>roundDouble\<close> they compute what the program computes. The counts
  are small integers and exact. \<open>Math.pow\<close> is taken as the rounded power; the language
  leaves its accuracy to the engine, but for the exponents 0 and 1 the power is exact.
\<close>

definition calculateParlayProbabilityIn :: "(real \<Rightarrow> real) \<Rightarrow> Leg list \<Rightarrow> real" where
  "calculateParlayProbabilityIn fl ls =
     foldl (\<lambda>product leg. fl (product * Leg.smoothedProb leg)) 1 ls"

definition sameGameStepIn :: "(real \<Rightarrow> real) \<Rightarrow> string \<times> nat \<Rightarrow> penaltyState \<Rightarrow> penaltyState" where
  "sameGameStepIn fl entry st =
     (let gameKey = fst entry; count = snd entry in
      if count > 1 then
        let extraLegs = count - 1;
            penaltyMultiplier = fl (fl 0.90 ^ extraLegs);
            penaltyAmount = fl (1 - penaltyMultiplier)
        in (fl (fst st * penaltyMultiplier),
            snd st @ [\<lparr>type = ''same_game'', amount = penaltyAmount,
                       reason = showNat count @ '' legs from same game ('' @ gameKey @ '') - ''
                                @ toFixed1 (fl (penaltyAmount * 100)) @ ''% penalty''\<rparr>])
      else st)"

definition sameTeamStepIn :: "(real \<Rightarrow> real) \<Rightarrow> string \<times> nat \<Rightarrow> penaltyState \<Rightarrow> penaltyState" where
  "sameTeamStepIn fl entry st =
     (let tm = fst entry; count = snd entry in
      if count > 1 then
        let extraLegs = count - 1;
            penaltyMultiplier = fl (fl 0.95 ^ extraLegs);
            penaltyAmount = fl (1 - penaltyMultiplier)
        in (fl (fst st * penaltyMultiplier),
            snd st @ [\<lparr>type = ''same_team'', amount = penaltyAmount,
                       reason = showNat count @ '' legs from '' @ tm @ '' - ''
                                @ toFixed1 (fl (penaltyAmount * 100)) @ ''% penalty''\<rparr>])
      else st)"

definition stackStepIn ::
  "(real \<Rightarrow> real) \<Rightarrow> string \<times> Leg list \<Rightarrow> penaltyState \<Rightarrow> penaltyState" where
  "stackStepIn fl teamGroup st =
     (let hasQBPass = list_ex isQBPassingYards (snd teamGroup);
          hasWRTERec = list_ex isWRTEReceivingYards (snd teamGroup)
      in if hasQBPass \<and> hasWRTERec then
           (fl (fst st * fl 0.85),
            snd st @ [\<lparr>type = ''qb_wr_stack'', amount = fl 0.15,
                       reason = ''QB pass yards + WR/TE rec yards from '' @ fst teamGroup
                                @ '' - 15% penalty''\<rparr>])
         else st)"

definition calculateParlayPenaltiesIn ::
  "(real \<Rightarrow> real) \<Rightarrow> Leg list \<Rightarrow> real \<times> PenaltyBreakdown list" where
  "calculateParlayPenaltiesIn fl ls =
     (let baseProbability = calculateParlayProbabilityIn fl ls;
          gameCounts = gameCountsOf ls;
          st1 = fold (sameGameStepIn fl) gameCounts (1.0, []);
          teams = fold teamStep ls ([], []);
          st2 = fold (sameTeamStepIn fl) (fst teams) st1;
          st3 = fold (stackStepIn fl) (snd teams) st2;
          adjustedProbability = fl (baseProbability * fst st3)
      in (max adjustedProbability 0, snd st3))"

section \<open>Activity filter\<close>

record PlayerStatus =
  playerId :: string
  team :: "string option"
  isActive :: bool
  isOnBye :: bool
  hasRecentSnaps :: bool
  currentWeek :: "real option"

text \<open>
  \<open>getByeWeekTeams\<close>: the three loops fill the sets \<open>teamsWithGames\<close>, \<open>allTeams\<close> and
  \<open>byeWeekTeams\<close>.
\<close>

definition getByeWeekTeams :: "GameLog list \<Rightarrow> real \<Rightarrow> real \<Rightarrow> string set" where
  "getByeWeekTeams gameLogs wk ssn =
     (let teamsWithGames =
            fold (\<lambda>lg acc. if week lg = Some wk \<and> season lg = Some ssn \<and> truthy (GameLog.team lg)
                            then insert (the (GameLog.team lg)) acc else acc) gameLogs {};
          allTeams =
            fold (\<lambda>lg acc. if truthy (GameLog.team lg) then insert (the (GameLog.team lg)) acc
                            else acc) gameLogs {}
      in {tm \<in> allTeams. tm \<notin> teamsWithGames})"

text \<open>The test of \<open>.every\<close>: the snap count is present and positive.\<close>

definition hasSnaps :: "GameLog \<Rightarrow> bool" where
  "hasSnaps lg = (case snaps lg of None \<Rightarrow> False | Some c \<Rightarrow> c > 0)"

text \<open>
  \<open>hasSnapsInLastNGames\<close> orders the player's logs with the date comparator, which is not
  consistent when some of the dates do not parse. The host's sort is therefore the
  parameter \<open>srt\<close> here, so that the model says about the order only what \<open>hostSort\<close> says.
\<close>

definition hasSnapsInLastNGames ::
  "((GameLog \<Rightarrow> GameLog \<Rightarrow> real) \<Rightarrow> GameLog list \<Rightarrow> GameLog list)
   \<Rightarrow> (string \<Rightarrow> int option) \<Rightarrow> GameLog list \<Rightarrow> string \<Rightarrow> int \<Rightarrow> bool" where
  "hasSnapsInLastNGames srt tm gameLogs pid n =
     (let sortedLogs =
            slice0 (srt (dateDesc tm) (filter (\<lambda>lg. GameLog.playerId lg = pid) gameLogs)) n
      in if int (length sortedLogs) < n then False
         else list_all hasSnaps sortedLogs)"

definition isPlayerActive ::
  "((GameLog \<Rightarrow> GameLog \<Rightarrow> real) \<Rightarrow> GameLog list \<Rightarrow> GameLog list)
   \<Rightarrow> (string \<Rightarrow> int option) \<Rightarrow> GameLog list \<Rightarrow> string \<Rightarrow> real \<Rightarrow> real \<Rightarrow> PlayerStatus" where
  "isPlayerActive srt tm gameLogs pid wk ssn =
     (case filter (\<lambda>lg. GameLog.playerId lg = pid) gameLogs of
        [] \<Rightarrow>
          \<lparr>playerId = pid, team = None, isActive = False, isOnBye = False,
           hasRecentSnaps = False, currentWeek = Some wk\<rparr>
      | first # _ \<Rightarrow>
          let tmName = GameLog.team first;
              byeWeekTeams = getByeWeekTeams gameLogs wk ssn;
              onBye = (if truthy tmName then the tmName \<in> byeWeekTeams else False);
              recent = hasSnapsInLastNGames srt tm gameLogs pid 2;
              active = (\<not> onBye \<and> recent)
          in \<lparr>playerId = pid, team = tmName, isActive = active, isOnBye = onBye,
              hasRecentSnaps = recent, currentWeek = Some wk\<rparr>)"

section \<open>Stat normalizer\<close>

text \<open>
  \<open>normalizeGameLog\<close> takes any object. A raw record is a finite map from property names to
  values; \<open>None\<close> is a missing property, which reads as \<open>undefined\<close>.
\<close>

datatype jsValue = JUndefined | JNull | JNumber real | JString string | JBool bool

type_synonym rawLog = "string \<Rightarrow> jsValue option"

text \<open>\<open>obj[k]\<close>, and \<open>k in obj\<close>.\<close>

definition getProp :: "rawLog \<Rightarrow> string \<Rightarrow> jsValue" where
  "getProp obj k = (case obj k of None \<Rightarrow> JUndefined | Some v \<Rightarrow> v)"

definition hasProp :: "rawLog \<Rightarrow> string \<Rightarrow> bool" where
  "hasProp obj k = (obj k \<noteq> None)"

text \<open>\<open>v === null || v === undefined\<close>.\<close>

definition isNullish :: "jsValue \<Rightarrow> bool" where
  "isNullish v = (v = JNull \<or> v = JUndefined)"

definition statMappings :: "(string \<times> string) list" where
  "statMappings =
     [(''passing_yards'', ''pass_yards''),
      (''rushing_yards'', ''rush_yards''),
      (''receiving_yards'', ''rec_yards''),
      (''rec'', ''receptions''),
      (''passing_tds'', ''pass_tds''),
      (''pass_td'', ''pass_tds'')]"

definition expectedStatFields :: "string list" where
  "expectedStatFields = [''pass_yards'', ''rush_yards'', ''rec_yards'', ''receptions'', ''pass_tds'']"

text \<open>One iteration of the loop over \<open>statMappings\<close>, and one of the loop over the fields.\<close>

definition mappingStep :: "string \<times> string \<Rightarrow> rawLog \<Rightarrow> rawLog" where
  "mappingStep entry normalized =
     (let altKey = fst entry; standardKey = snd entry in
      if hasProp normalized altKey then
        (if \<not> hasProp normalized standardKey \<or> getProp normalized standardKey = JNull
            \<or> getProp normalized standardKey = JUndefined
         then normalized(standardKey \<mapsto> getProp normalized altKey)
         else normalized)
      else normalized)"

definition zeroStep :: "string \<Rightarrow> rawLog \<Rightarrow> rawLog" where
  "zeroStep field normalized =
     (if getProp normalized field = JUndefined \<or> getProp normalized field = JNull
      then normalized(field \<mapsto> JNumber 0)
      else normalized)"

definition normalizeGameLog :: "rawLog \<Rightarrow> rawLog" where
  "normalizeGameLog gameLog =
     (let normalized = gameLog;
          normalized = fold mappingStep statMappings normalized;
          normalized = fold zeroStep expectedStatFields normalized
      in normalized)"

section \<open>The quantities the specification names\<close>

text \<open>
  The specification's \<open>n\<close>: the number of logs that carry a value for the statistic; and its
  \<open>k\<close>: the number of those whose value reaches the threshold. Both are written from the
  specification's words, to be compared with what the program computes.
\<close>

definition spec_n :: "StatType \<Rightarrow> GameLog list \<Rightarrow> nat" where
  "spec_n st gameLogs = length (filter (\<lambda>l. statOf st l \<noteq> None) gameLogs)"

definition spec_k :: "StatType \<Rightarrow> real \<Rightarrow> GameLog list \<Rightarrow> nat" where
  "spec_k st thr gameLogs =
     length (filter (\<lambda>l. case statOf st l of None \<Rightarrow> False | Some v \<Rightarrow> thr \<le> v) gameLogs)"

definition spec_qualifies :: "StatType \<Rightarrow> real \<Rightarrow> GameLog list \<Rightarrow> real \<Rightarrow> real \<Rightarrow> bool" where
  "spec_qualifies st thr gameLogs minProbability minSampleSize =
     (minSampleSize \<le> real (spec_n st gameLogs)
      \<and> minProbability \<le> (real (spec_k st thr gameLogs) + 4) / (real (spec_n st gameLogs) + 6))"

text \<open>
  The threshold \<open>thr\<close> is the lowest one of the statistic's table row that meets the sample
  size and the probability bar.
\<close>

definition lowestQualifying :: "StatType \<Rightarrow> real \<Rightarrow> GameLog list \<Rightarrow> real \<Rightarrow> real \<Rightarrow> bool" where
  "lowestQualifying st thr gameLogs minProbability minSampleSize =
     (case map_of STAT_THRESHOLDS st of
        None \<Rightarrow> False
      | Some thresholds \<Rightarrow>
          thr \<in> set thresholds
          \<and> spec_qualifies st thr gameLogs minProbability minSampleSize
          \<and> (\<forall>t \<in> set thresholds.
                t < thr \<longrightarrow> \<not> spec_qualifies st t gameLogs minProbability minSampleSize))"








text \<open>
  All subsets of a given size of a sequence, as subsequences, those that contain an earlier
  element first: the combinations (not permutations) the specification enumerates.
\<close>

fun combinationsOf :: "nat \<Rightarrow> 'a list \<Rightarrow> 'a list list" where
  "combinationsOf 0 xs = [[]]"
| "combinationsOf (Suc n) [] = []"
| "combinationsOf (Suc n) (x # xs) = map ((#) x) (combinationsOf n xs) @ combinationsOf (Suc n) xs"

text \<open>
  The specification's ranking of parlays: adjusted probability descending, ties broken by the
  unweighted mean of the legs' smoothed probabilities, descending.
\<close>

definition spec_meanProb :: "Parlay \<Rightarrow> real" where
  "spec_meanProb p = sum_list (map Leg.smoothedProb (legs p)) / real (length (legs p))"

definition rankedBefore :: "Parlay \<Rightarrow> Parlay \<Rightarrow> bool" where
  "rankedBefore p q =
     (estimatedProbability p > estimatedProbability q
      \<or> (estimatedProbability p = estimatedProbability q \<and> spec_meanProb p \<ge> spec_meanProb q))"

text \<open>
  The same ranking read off the legs alone: the adjusted probability of a parlay is what
  \<open>calculateParlayPenalties\<close> returns for its legs.
\<close>

definition orderedByAdjusted :: "Parlay \<Rightarrow> Parlay \<Rightarrow> bool" where
  "orderedByAdjusted p q =
     (fst (calculateParlayPenalties (legs p)) > fst (calculateParlayPenalties (legs q))
      \<or> (fst (calculateParlayPenalties (legs p)) = fst (calculateParlayPenalties (legs q))
          \<and> sum_list (map Leg.smoothedProb (legs p)) / real (length (legs p))
              \<ge> sum_list (map Leg.smoothedProb (legs q)) / real (length (legs q))))"

text \<open>
  The game key in the specification's words: the game identifier, falling back to the game
  date, then to the token \<open>unknown\<close>. An empty string counts as absent.
\<close>

definition spec_gameKey :: "Leg \<Rightarrow> string" where
  "spec_gameKey leg =
     (case filter (\<lambda>s. s \<noteq> []) (List.map_filter (\<lambda>x. x) [Leg.gameId leg, Leg.gameDate leg]) of
        [] \<Rightarrow> ''unknown''
      | k # _ \<Rightarrow> k)"

text \<open>
  The games shared by more than one leg, in the order of their first leg; the factor
  0.90 raised to (count - 1) over those games; and the penalty entry recorded for one of
  them, of type \<open>same_game\<close>, whose amount is 1 minus that game's factor.
\<close>

fun firstOccurrences :: "'a list \<Rightarrow> 'a list" where
  "firstOccurrences [] = []"
| "firstOccurrences (x # xs) = x # firstOccurrences (filter (\<lambda>y. y \<noteq> x) xs)"

definition sharedGames :: "Leg list \<Rightarrow> string list" where
  "sharedGames ls =
     filter (\<lambda>k. 1 < count_list (map gameKeyOf ls) k) (firstOccurrences (map gameKeyOf ls))"

definition sameGameFactor :: "Leg list \<Rightarrow> real" where
  "sameGameFactor ls =
     prod_list (map (\<lambda>k. 0.90 ^ (count_list (map gameKeyOf ls) k - 1)) (sharedGames ls))"

definition sameGamePenalty :: "Leg list \<Rightarrow> string \<Rightarrow> PenaltyBreakdown" where
  "sameGamePenalty ls k =
     (let c = count_list (map gameKeyOf ls) k;
          loss = 1 - 0.90 ^ (c - 1)
      in \<lparr>type = ''same_game'', amount = loss,
          reason = showNat c @ '' legs from same game ('' @ k @ '') - ''
                   @ toFixed1 (loss * 100) @ ''% penalty''\<rparr>)"

text \<open>
  The same two quantities under a rounding \<open>fl\<close> of every literal and operation: the running
  multiplier after the same-game loop, and the entry recorded for one shared game.
\<close>

definition sameGamePenaltyIn :: "(real \<Rightarrow> real) \<Rightarrow> Leg list \<Rightarrow> string \<Rightarrow> PenaltyBreakdown" where
  "sameGamePenaltyIn fl ls k =
     (let c = count_list (map gameKeyOf ls) k;
          loss = fl (1 - fl (fl 0.90 ^ (c - 1)))
      in \<lparr>type = ''same_game'', amount = loss,
          reason = showNat c @ '' legs from same game ('' @ k @ '') - ''
                   @ toFixed1 (fl (loss * 100)) @ ''% penalty''\<rparr>)"

definition sameGameMultiplierIn :: "(real \<Rightarrow> real) \<Rightarrow> Leg list \<Rightarrow> real" where
  "sameGameMultiplierIn fl ls =
     foldl (\<lambda>multiplier k. fl (multiplier * fl (fl 0.90 ^ (count_list (map gameKeyOf ls) k - 1))))
       1 (sharedGames ls)"

text \<open>
  The logs of one player in the full log set, whatever their week and season; and the
  order "at least as recent" on the parsed game dates.
\<close>

definition playerLogsOf :: "GameLog list \<Rightarrow> string \<Rightarrow> GameLog list" where
  "playerLogsOf gameLogs pid = filter (\<lambda>lg. GameLog.playerId lg = pid) gameLogs"

definition notOlder :: "(string \<Rightarrow> int option) \<Rightarrow> GameLog \<Rightarrow> GameLog \<Rightarrow> bool" where
  "notOlder tm a b =
     (case (tm (GameLog.gameDate a), tm (GameLog.gameDate b)) of
        (Some ta, Some tb) \<Rightarrow> tb \<le> ta
      | _ \<Rightarrow> False)"

text \<open>
  The alternate names of a canonical field, in the order of the mapping table; and the
  value the specification gives the field: its own value when present, else the first
  present value among its alternates, else zero.
\<close>

definition alternatesOf :: "string \<Rightarrow> string list" where
  "alternatesOf field = map fst (filter (\<lambda>entry. snd entry = field) statMappings)"

definition spec_normalized :: "rawLog \<Rightarrow> string \<Rightarrow> jsValue" where
  "spec_normalized gameLog field =
     (case find (\<lambda>v. \<not> isNullish v)
             (getProp gameLog field # map (getProp gameLog) (alternatesOf field)) of
        Some v \<Rightarrow> v
      | None \<Rightarrow> JNumber 0)"

section \<open>Example data\<close>

text \<open>A log with no optional field set, and a receiver's log with given receiving yards.\<close>

definition blankLog :: GameLog where
  "blankLog =
     \<lparr>GameLog.playerId = ''p1'', playerName = None, gameDate = ''2024-09-08'', gameId = None,
      week = None, season = None, team = None, opponent = None, position = None,
      snaps = None, pass_yards = None, rush_yards = None, rec_yards = None,
      receptions = None, pass_tds = None, rush_attempts = None, targets = None\<rparr>"

definition recLog :: "real \<Rightarrow> GameLog" where
  "recLog y = blankLog\<lparr>GameLog.position := Some ''WR'', rec_yards := Some y\<rparr>"

text \<open>A date parser for the examples: ten game days, numbered in calendar order.\<close>

definition exampleTime :: "string \<Rightarrow> int option" where
  "exampleTime s =
     map_of [(''2024-09-08'', 1), (''2024-09-15'', 2), (''2024-09-22'', 3), (''2024-09-29'', 4),
             (''2024-10-06'', 5), (''2024-10-13'', 6), (''2024-10-20'', 7), (''2024-10-27'', 8),
             (''2024-11-03'', 9), (''2024-11-10'', 10)] s"

text \<open>A receiver's game: date, targets and receiving yards.\<close>

definition wrLog :: "string \<Rightarrow> real \<Rightarrow> real \<Rightarrow> GameLog" where
  "wrLog d tg y =
     blankLog\<lparr>GameLog.gameDate := d, GameLog.position := Some ''WR'', targets := Some tg,
       rec_yards := Some y\<rparr>"

definition wrSeason :: "GameLog list" where
  "wrSeason =
     [wrLog ''2024-09-08'' 8 80, wrLog ''2024-09-15'' 8 60, wrLog ''2024-09-22'' 8 55,
      wrLog ''2024-09-29'' 8 40, wrLog ''2024-10-06'' 8 30, wrLog ''2024-10-13'' 8 26]"






text \<open>A quarterback with 250 passing yards in each of six games.\<close>

definition qbLog :: "string \<Rightarrow> real \<Rightarrow> GameLog" where
  "qbLog d y = blankLog\<lparr>GameLog.gameDate := d, GameLog.position := Some ''QB'', pass_yards := Some y\<rparr>"

definition qbSeason :: "GameLog list" where
  "qbSeason =
     [qbLog ''2024-09-08'' 250, qbLog ''2024-09-15'' 250, qbLog ''2024-09-22'' 250,
      qbLog ''2024-09-29'' 250, qbLog ''2024-10-06'' 250, qbLog ''2024-10-13'' 250]"



text \<open>Candidate legs: three players in three games, and options that only set \<open>legCount\<close>.\<close>

definition exampleLeg ::
  "string \<Rightarrow> StatType \<Rightarrow> real \<Rightarrow> real \<Rightarrow> string option \<Rightarrow> string option \<Rightarrow> string option \<Rightarrow> Leg" where
  "exampleLeg pid st thr p game tm pos =
     \<lparr>Leg.playerId = pid, playerName = None, statType = st, threshold = thr, smoothedProb = p,
      rawProb = p, confidence = getConfidenceLevel p, sampleSize = 10, lastNGameValues = [],
      consistency = None, reason = None, gameId = game, gameDate = None, team = tm,
      opponent = None, position = pos\<rparr>"

definition exampleLegs :: "Leg list" where
  "exampleLegs =
     [exampleLeg ''a'' ST_rec_yards 40 0.90 (Some ''g1'') (Some ''KC'') (Some ''WR''),
      exampleLeg ''b'' ST_rush_yards 40 0.85 (Some ''g2'') (Some ''BUF'') (Some ''RB''),
      exampleLeg ''c'' ST_receptions 3 0.80 (Some ''g3'') (Some ''DAL'') (Some ''TE'')]"

definition exampleOptions :: "real option \<Rightarrow> ParlayOptions" where
  "exampleOptions n =
     \<lparr>minLegs = None, maxLegs = None, maxLegsPerGame = None, maxLegsPerTeam = None,
      allowSameTeamStack = None, legCount = n, singleGame = None, gameId = None,
      minLegProb = None, allowSameGame = None\<rparr>"

text \<open>Two legs of one game and of different teams, with probabilities 0.80 and 0.75.\<close>

definition sameGameLegs :: "Leg list" where
  "sameGameLegs =
     [exampleLeg ''a'' ST_rec_yards 40 0.80 (Some ''g1'') (Some ''KC'') (Some ''WR''),
      exampleLeg ''b'' ST_rush_yards 40 0.75 (Some ''g1'') (Some ''BUF'') (Some ''RB'')]"

text \<open>
  The same two legs as the program holds them: the probabilities are the doubles nearest to
  0.80 and 0.75. And three legs that take their game key from the identifier, from the
  date, and from neither.
\<close>

definition sameGameDoubles :: "Leg list" where
  "sameGameDoubles =
     [exampleLeg ''a'' ST_rec_yards 40 (roundDouble 0.80) (Some ''g1'') (Some ''KC'') (Some ''WR''),
      exampleLeg ''b'' ST_rush_yards 40 (roundDouble 0.75) (Some ''g1'') (Some ''BUF'')
        (Some ''RB'')]"

definition keyLegs :: "Leg list" where
  "keyLegs =
     [(exampleLeg ''a'' ST_rec_yards 40 0.80 (Some ''g1'') None None)
        \<lparr>Leg.gameDate := Some ''2024-09-08''\<rparr>,
      (exampleLeg ''b'' ST_rec_yards 40 0.80 (Some '''') None None)
        \<lparr>Leg.gameDate := Some ''2024-09-08''\<rparr>,
      exampleLeg ''c'' ST_rec_yards 40 0.80 None None None]"

text \<open>
  Five logs of two players: player \<open>p1\<close> of KC plays in weeks 1 to 3, without a snap count
  in week 1; BUF alone plays in week 4.
\<close>

definition snapLog :: "string \<Rightarrow> string \<Rightarrow> string \<Rightarrow> real \<Rightarrow> real option \<Rightarrow> GameLog" where
  "snapLog pid d tmName wk sn =
     blankLog\<lparr>GameLog.playerId := pid, GameLog.gameDate := d, GameLog.team := Some tmName,
       week := Some wk, season := Some 2024, snaps := sn\<rparr>"

definition snapSeason :: "GameLog list" where
  "snapSeason =
     [snapLog ''p1'' ''2024-09-08'' ''KC'' 1 None,
      snapLog ''p1'' ''2024-09-15'' ''KC'' 2 (Some 40),
      snapLog ''p2'' ''2024-09-15'' ''BUF'' 2 (Some 55),
      snapLog ''p1'' ''2024-09-22'' ''KC'' 3 (Some 38),
      snapLog ''p2'' ''2024-09-29'' ''BUF'' 4 (Some 60)]"

text \<open>
  Player \<open>p3\<close>: the first log carries no team, the second names KC; KC has no log in
  week 3, where BUF alone plays.
\<close>

definition teamlessSeason :: "GameLog list" where
  "teamlessSeason =
     [(snapLog ''p3'' ''2024-09-08'' ''KC'' 1 (Some 30))\<lparr>GameLog.team := None\<rparr>,
      snapLog ''p3'' ''2024-09-15'' ''KC'' 2 (Some 40),
      snapLog ''p2'' ''2024-09-22'' ''BUF'' 3 (Some 55)]"

text \<open>
  A raw record with an alternate name only (\<open>passing_yards\<close>), a canonical value next to an
  alternate one (\<open>rush_yards\<close>), a null canonical value with an alternate (\<open>pass_tds\<close>), and
  two statistics missing.
\<close>

definition rawExample :: rawLog where
  "rawExample =
     [''playerId'' \<mapsto> JString ''p1'', ''passing_yards'' \<mapsto> JNumber 250,
      ''rush_yards'' \<mapsto> JNumber 12, ''rushing_yards'' \<mapsto> JNumber 99,
      ''pass_tds'' \<mapsto> JNull, ''pass_td'' \<mapsto> JNumber 2]"

section \<open>Facts about the helpers\<close>

lemma length_statValues: "length (statValues st ls) = spec_n st ls"
  by (induction ls) (auto simp: statValues_def spec_n_def List.map_filter_simps split: option.splits)

lemma hits_statValues:
  "length (filter (\<lambda>val. val \<ge> thr) (statValues st ls)) = spec_k st thr ls"
  by (induction ls) (auto simp: statValues_def spec_k_def List.map_filter_simps split: option.splits)

lemma spec_n_Nil: "spec_n st [] = 0"
  by (simp add: spec_n_def)

lemma statValues_empty_iff: "statValues st ls = [] \<longleftrightarrow> spec_n st ls = 0"
  using length_statValues [of st ls] by auto

lemma calculateProbability_pos:
  assumes "0 < spec_n st ls"
  shows "calculateProbability ls st thr a b =
     \<lparr>ProbabilityResult.rawProb = real (spec_k st thr ls) / real (spec_n st ls),
      smoothedProb = (real (spec_k st thr ls) + a) / (real (spec_n st ls) + a + b),
      sampleSize = spec_n st ls,
      lastNGameValues = statValues st ls,
      consistency = calculateStandardDeviation (statValues st ls)\<rparr>"
proof -
  from assms have "ls \<noteq> []" by (auto simp: spec_n_def)
  moreover from assms have "statValues st ls \<noteq> []" by (simp add: statValues_empty_iff)
  ultimately show ?thesis
    by (simp add: calculateProbability_def Let_def length_statValues hits_statValues)
qed

lemma calculateProbability_zero:
  assumes "spec_n st ls = 0"
  shows "calculateProbability ls st thr a b =
     \<lparr>ProbabilityResult.rawProb = 0, smoothedProb = 0, sampleSize = 0,
      lastNGameValues = [], consistency = 0\<rparr>"
  using assms by (simp add: calculateProbability_def Let_def statValues_empty_iff)

lemma passesFilters_iff:
  "passesFilters ls st minP minS thr \<longleftrightarrow> 0 < spec_n st ls \<and> spec_qualifies st thr ls minP minS"
proof (cases "spec_n st ls = 0")
  case True
  then show ?thesis
    by (simp add: passesFilters_def calculateProbability_zero)
next
  case False
  then have pos: "0 < spec_n st ls" by simp
  show ?thesis
    using pos
    by (simp add: passesFilters_def calculateProbability_pos [OF pos] spec_qualifies_def
        length_statValues statValues_empty_iff DEFAULT_BETA_A_def DEFAULT_BETA_B_def add.assoc)
qed

lemma thresholdLoop_miss:
  "\<not> passesFilters ls st minP minS thr \<Longrightarrow>
   thresholdLoop pid pname ls st minP minS (thr # rest)
     = thresholdLoop pid pname ls st minP minS rest"
  unfolding passesFilters_def Let_def
  by (subst thresholdLoop.simps(2)) (simp only: Let_def if_not_P if_False)

lemma thresholdLoop_hit:
  assumes "passesFilters ls st minP minS thr"
  shows "\<exists>leg. thresholdLoop pid pname ls st minP minS (thr # rest) = Inr (Some leg)
           \<and> Leg.playerId leg = pid \<and> statType leg = st \<and> threshold leg = thr"
proof -
  from assms have "ls \<noteq> []"
    by (auto simp: passesFilters_iff spec_n_def)
  then obtain l ls' where "ls = l # ls'" by (cases ls) auto
  with assms show ?thesis
    unfolding passesFilters_def Let_def
    by (subst thresholdLoop.simps(2)) (simp add: Let_def)
qed

lemma thresholdLoop_result:
  "(thresholdLoop pid pname ls st minP minS thrs = Inr None
      \<and> (\<forall>t \<in> set thrs. \<not> passesFilters ls st minP minS t))
   \<or> (\<exists>leg pre post. thresholdLoop pid pname ls st minP minS thrs = Inr (Some leg)
         \<and> Leg.playerId leg = pid \<and> statType leg = st
         \<and> thrs = pre @ threshold leg # post
         \<and> passesFilters ls st minP minS (threshold leg)
         \<and> (\<forall>t \<in> set pre. \<not> passesFilters ls st minP minS t))"
proof (induction thrs)
  case Nil
  then show ?case by simp
next
  case (Cons thr rest)
  show ?case
  proof (cases "passesFilters ls st minP minS thr")
    case True
    from thresholdLoop_hit [OF True, of pid pname rest] obtain leg where
      "thresholdLoop pid pname ls st minP minS (thr # rest) = Inr (Some leg)"
      "Leg.playerId leg = pid" "statType leg = st" "threshold leg = thr"
      by blast
    with True have "thresholdLoop pid pname ls st minP minS (thr # rest) = Inr (Some leg)
         \<and> Leg.playerId leg = pid \<and> statType leg = st
         \<and> thr # rest = [] @ threshold leg # rest
         \<and> passesFilters ls st minP minS (threshold leg)
         \<and> (\<forall>t \<in> set []. \<not> passesFilters ls st minP minS t)"
      by simp
    then show ?thesis by blast
  next
    case False
    note miss = thresholdLoop_miss [OF False, of pid pname rest]
    from Cons.IH show ?thesis
    proof
      assume "thresholdLoop pid pname ls st minP minS rest = Inr None
               \<and> (\<forall>t \<in> set rest. \<not> passesFilters ls st minP minS t)"
      with False miss show ?thesis by simp
    next
      assume "\<exists>leg pre post. thresholdLoop pid pname ls st minP minS rest = Inr (Some leg)
         \<and> Leg.playerId leg = pid \<and> statType leg = st
         \<and> rest = pre @ threshold leg # post
         \<and> passesFilters ls st minP minS (threshold leg)
         \<and> (\<forall>t \<in> set pre. \<not> passesFilters ls st minP minS t)"
      then obtain leg pre post where
        h: "thresholdLoop pid pname ls st minP minS rest = Inr (Some leg)"
           "Leg.playerId leg = pid" "statType leg = st" "rest = pre @ threshold leg # post"
           "passesFilters ls st minP minS (threshold leg)"
           "\<forall>t \<in> set pre. \<not> passesFilters ls st minP minS t"
        by blast
      have "thresholdLoop pid pname ls st minP minS (thr # rest) = Inr (Some leg)
         \<and> Leg.playerId leg = pid \<and> statType leg = st
         \<and> thr # rest = (thr # pre) @ threshold leg # post
         \<and> passesFilters ls st minP minS (threshold leg)
         \<and> (\<forall>t \<in> set (thr # pre). \<not> passesFilters ls st minP minS t)"
        using h False miss by simp
      then show ?thesis by blast
    qed
  qed
qed


lemma statLoop_result:
  "\<exists>new. statLoop pid pname ls minP minS tbl lgs = Inr (lgs @ new)
     \<and> set (map statType new) \<subseteq> fst ` set tbl
     \<and> (distinct (map fst tbl) \<longrightarrow> distinct (map statType new))
     \<and> (\<forall>leg \<in> set new. Leg.playerId leg = pid
           \<and> (\<exists>thrs pre post. (statType leg, thrs) \<in> set tbl
                 \<and> thrs = pre @ threshold leg # post
                 \<and> passesFilters ls (statType leg) minP minS (threshold leg)
                 \<and> (\<forall>t \<in> set pre. \<not> passesFilters ls (statType leg) minP minS t)))"
proof (induction tbl arbitrary: lgs)
  case Nil
  then show ?case by simp
next
  case (Cons entry rest)
  obtain st thrs where entry: "entry = (st, thrs)" by (cases entry)
  let ?good = "\<lambda>tb leg. Leg.playerId leg = pid
           \<and> (\<exists>thrs pre post. (statType leg, thrs) \<in> set tb
                 \<and> thrs = pre @ threshold leg # post
                 \<and> passesFilters ls (statType leg) minP minS (threshold leg)
                 \<and> (\<forall>t \<in> set pre. \<not> passesFilters ls (statType leg) minP minS t))"
  have weaken: "?good (entry # rest) leg" if "?good rest leg" for leg
    using that by auto
  consider (skip) "statLoop pid pname ls minP minS (entry # rest) lgs
                     = statLoop pid pname ls minP minS rest lgs"
    | (push) leg pre post where
        "statLoop pid pname ls minP minS (entry # rest) lgs
           = statLoop pid pname ls minP minS rest (lgs @ [leg])"
        "Leg.playerId leg = pid" "statType leg = st" "thrs = pre @ threshold leg # post"
        "passesFilters ls st minP minS (threshold leg)"
        "\<forall>t \<in> set pre. \<not> passesFilters ls st minP minS t"
  proof (cases "hasSufficientStatData ls st 4")
    case False
    then show ?thesis using skip entry by simp
  next
    case True
    from thresholdLoop_result [of pid pname ls st minP minS thrs] show ?thesis
    proof
      assume "thresholdLoop pid pname ls st minP minS thrs = Inr None
               \<and> (\<forall>t \<in> set thrs. \<not> passesFilters ls st minP minS t)"
      then show ?thesis using skip entry True by simp
    next
      assume "\<exists>leg pre post. thresholdLoop pid pname ls st minP minS thrs = Inr (Some leg)
         \<and> Leg.playerId leg = pid \<and> statType leg = st
         \<and> thrs = pre @ threshold leg # post
         \<and> passesFilters ls st minP minS (threshold leg)
         \<and> (\<forall>t \<in> set pre. \<not> passesFilters ls st minP minS t)"
      then obtain leg pre post where
        h: "thresholdLoop pid pname ls st minP minS thrs = Inr (Some leg)"
           "Leg.playerId leg = pid" "statType leg = st" "thrs = pre @ threshold leg # post"
           "passesFilters ls st minP minS (threshold leg)"
           "\<forall>t \<in> set pre. \<not> passesFilters ls st minP minS t"
        by blast
      have "statLoop pid pname ls minP minS (entry # rest) lgs
           = statLoop pid pname ls minP minS rest (lgs @ [leg])"
        using entry True h(1) by simp
      with h show ?thesis using push by blast
    qed
  qed
  then show ?case
  proof cases
    case skip
    from Cons.IH [of lgs] obtain new where
      n: "statLoop pid pname ls minP minS rest lgs = Inr (lgs @ new)"
         "set (map statType new) \<subseteq> fst ` set rest"
         "distinct (map fst rest) \<longrightarrow> distinct (map statType new)"
         "\<forall>leg \<in> set new. ?good rest leg"
      by blast
    have "\<forall>leg \<in> set new. ?good (entry # rest) leg"
      using n(4) weaken by blast
    moreover have "set (map statType new) \<subseteq> fst ` set (entry # rest)"
      using n(2) by auto
    moreover have "distinct (map fst (entry # rest)) \<longrightarrow> distinct (map statType new)"
      using n(3) by simp
    moreover have "statLoop pid pname ls minP minS (entry # rest) lgs = Inr (lgs @ new)"
      using skip n(1) by simp
    ultimately show ?thesis by blast
  next
    case (push leg pre post)
    from Cons.IH [of "lgs @ [leg]"] obtain new where
      n: "statLoop pid pname ls minP minS rest (lgs @ [leg]) = Inr ((lgs @ [leg]) @ new)"
         "set (map statType new) \<subseteq> fst ` set rest"
         "distinct (map fst rest) \<longrightarrow> distinct (map statType new)"
         "\<forall>leg \<in> set new. ?good rest leg"
      by blast
    have g: "?good (entry # rest) leg"
      using push entry by auto
    have "\<forall>l \<in> set (leg # new). ?good (entry # rest) l"
      using n(4) weaken g by (metis set_ConsD)
    moreover have "set (map statType (leg # new)) \<subseteq> fst ` set (entry # rest)"
      using n(2) push(3) entry by auto
    moreover have "distinct (map fst (entry # rest)) \<longrightarrow> distinct (map statType (leg # new))"
      using n(2,3) push(3) entry by auto
    moreover have "statLoop pid pname ls minP minS (entry # rest) lgs = Inr (lgs @ (leg # new))"
      using push(1) n(1) by simp
    ultimately show ?thesis by blast
  qed
qed

lemma mset_sortInsert: "mset (sortInsert cmp x xs) = add_mset x (mset xs)"
  by (induction xs) auto

lemma mset_arraySort: "mset (arraySort cmp xs) = mset xs"
  by (induction xs) (auto simp: arraySort_def mset_sortInsert)

lemma set_arraySort: "set (arraySort cmp xs) = set xs"
  using mset_arraySort [of cmp xs] by (metis set_mset_mset)

lemma length_arraySort: "length (arraySort cmp xs) = length xs"
  using mset_arraySort [of cmp xs] by (metis size_mset)

lemma distinct_map_arraySort: "distinct (map f (arraySort cmp xs)) \<longleftrightarrow> distinct (map f xs)"
proof -
  have "mset (map f (arraySort cmp xs)) = mset (map f xs)"
    by (metis mset_arraySort mset_map)
  then show ?thesis by (rule mset_eq_imp_distinct_iff)
qed

lemma STAT_THRESHOLDS_keys: "distinct (map fst STAT_THRESHOLDS)"
  by (simp add: STAT_THRESHOLDS_def)

lemma STAT_THRESHOLDS_ascending:
  "(st, thrs) \<in> set STAT_THRESHOLDS \<Longrightarrow> sorted_wrt (<) thrs"
  by (auto simp: STAT_THRESHOLDS_def)

lemma prefix_holds_smaller:
  assumes "sorted_wrt (<) (pre @ x # post)" "t \<in> set (pre @ x # post)" "t < (x::real)"
  shows "t \<in> set pre"
  using assms by (auto simp: sorted_wrt_append)

lemma lowestQualifyingI:
  assumes tbl: "(st, thrs) \<in> set STAT_THRESHOLDS"
    and split: "thrs = pre @ thr # post"
    and hit: "passesFilters ls st minP minS thr"
    and miss: "\<forall>t \<in> set pre. \<not> passesFilters ls st minP minS t"
  shows "lowestQualifying st thr ls minP minS"
proof -
  have m: "map_of STAT_THRESHOLDS st = Some thrs"
    using tbl STAT_THRESHOLDS_keys by (simp add: map_of_is_SomeI)
  from hit have pos: "0 < spec_n st ls" and q: "spec_qualifies st thr ls minP minS"
    by (simp_all add: passesFilters_iff)
  have "\<not> spec_qualifies st t ls minP minS" if "t \<in> set thrs" "t < thr" for t
  proof -
    have "sorted_wrt (<) (pre @ thr # post)"
      using STAT_THRESHOLDS_ascending [OF tbl] split by simp
    then have "t \<in> set pre"
      using that split prefix_holds_smaller by blast
    with miss pos show ?thesis by (simp add: passesFilters_iff)
  qed
  with m q split show ?thesis
    by (simp add: lowestQualifying_def)
qed

lemma generateLegs_result:
  "\<exists>lgs. generateLegs tm pid pname gameLogs lastN minP minS minT = Inr lgs
     \<and> distinct (map statType lgs)
     \<and> (\<forall>l \<in> set lgs. Leg.playerId l = pid
           \<and> lowestQualifying (statType l) (threshold l) (selectLogs tm gameLogs lastN) minP minS)"
proof (cases "calculateAverageTouchesPerGame (selectLogs tm gameLogs lastN) < minT")
  case True
  then show ?thesis by (simp add: generateLegs_def)
next
  case False
  let ?ls = "selectLogs tm gameLogs lastN"
  from statLoop_result [of pid pname ?ls minP minS STAT_THRESHOLDS "[]"] obtain new where
    n: "statLoop pid pname ?ls minP minS STAT_THRESHOLDS [] = Inr new"
       "distinct (map statType new)"
       "\<forall>leg \<in> set new. Leg.playerId leg = pid
           \<and> (\<exists>thrs pre post. (statType leg, thrs) \<in> set STAT_THRESHOLDS
                 \<and> thrs = pre @ threshold leg # post
                 \<and> passesFilters ?ls (statType leg) minP minS (threshold leg)
                 \<and> (\<forall>t \<in> set pre. \<not> passesFilters ?ls (statType leg) minP minS t))"
    using STAT_THRESHOLDS_keys by auto
  have "generateLegs tm pid pname gameLogs lastN minP minS minT = Inr (arraySort legCompare new)"
    using False n(1) by (simp add: generateLegs_def)
  moreover have "distinct (map statType (arraySort legCompare new))"
    using n(2) by (simp add: distinct_map_arraySort)
  moreover have "\<forall>l \<in> set (arraySort legCompare new). Leg.playerId l = pid
           \<and> lowestQualifying (statType l) (threshold l) ?ls minP minS"
    using n(3) lowestQualifyingI by (fastforce simp: set_arraySort)
  ultimately show ?thesis by blast
qed

lemma thresholdLoop_fields:
  assumes "thresholdLoop pid pname ls st minP minS thrs = Inr (Some leg)"
  shows "statType leg = st
    \<and> Leg.rawProb leg = ProbabilityResult.rawProb
          (calculateProbability ls st (threshold leg) DEFAULT_BETA_A DEFAULT_BETA_B)
    \<and> Leg.smoothedProb leg = ProbabilityResult.smoothedProb
          (calculateProbability ls st (threshold leg) DEFAULT_BETA_A DEFAULT_BETA_B)
    \<and> Leg.sampleSize leg = ProbabilityResult.sampleSize
          (calculateProbability ls st (threshold leg) DEFAULT_BETA_A DEFAULT_BETA_B)"
  using assms
proof (induction thrs)
  case Nil
  then show ?case by simp
next
  case (Cons thr rest)
  show ?case
  proof (cases "passesFilters ls st minP minS thr")
    case False
    from Cons.prems thresholdLoop_miss [OF False, of pid pname rest]
    have "thresholdLoop pid pname ls st minP minS rest = Inr (Some leg)" by simp
    then show ?thesis by (rule Cons.IH)
  next
    case True
    then have c: "real (ProbabilityResult.sampleSize
                     (calculateProbability ls st thr DEFAULT_BETA_A DEFAULT_BETA_B)) \<ge> minS
         \<and> ProbabilityResult.smoothedProb
             (calculateProbability ls st thr DEFAULT_BETA_A DEFAULT_BETA_B) \<ge> minP
         \<and> length (ProbabilityResult.lastNGameValues
             (calculateProbability ls st thr DEFAULT_BETA_A DEFAULT_BETA_B)) > 0"
      by (simp add: passesFilters_def Let_def)
    from True have "ls \<noteq> []"
      by (auto simp: passesFilters_iff spec_n_def)
    then obtain l ls' where l: "ls = l # ls'" by (cases ls) auto
    from Cons.prems c show ?thesis
      unfolding l by (subst (asm) thresholdLoop.simps(2)) (auto simp: Let_def)
  qed
qed

lemma statLoop_all:
  assumes "\<forall>l \<in> set acc. Q l"
    and "\<And>st thrs leg. hasSufficientStatData ls st 4 \<Longrightarrow>
           thresholdLoop pid pname ls st minP minS thrs = Inr (Some leg) \<Longrightarrow> Q leg"
    and "statLoop pid pname ls minP minS tbl acc = Inr out"
  shows "\<forall>l \<in> set out. Q l"
  using assms(1,3)
proof (induction tbl arbitrary: acc)
  case Nil
  then show ?case by simp
next
  case (Cons entry rest)
  obtain st thrs where entry: "entry = (st, thrs)" by (cases entry)
  show ?case
  proof (cases "hasSufficientStatData ls st 4")
    case False
    with Cons.prems(2) entry have "statLoop pid pname ls minP minS rest acc = Inr out" by simp
    with Cons.IH Cons.prems(1) show ?thesis by blast
  next
    case True
    show ?thesis
    proof (cases "thresholdLoop pid pname ls st minP minS thrs")
      case (Inl e)
      with Cons.prems(2) entry True show ?thesis by simp
    next
      case (Inr r)
      show ?thesis
      proof (cases r)
        case None
        with Inr Cons.prems(2) entry True
        have "statLoop pid pname ls minP minS rest acc = Inr out" by simp
        with Cons.IH Cons.prems(1) show ?thesis by blast
      next
        case (Some leg)
        with Inr Cons.prems(2) entry True
        have s: "statLoop pid pname ls minP minS rest (acc @ [leg]) = Inr out" by simp
        have "Q leg" using assms(2) [OF True] Inr Some by simp
        with Cons.prems(1) have "\<forall>l \<in> set (acc @ [leg]). Q l" by simp
        from Cons.IH [OF this s] show ?thesis .
      qed
    qed
  qed
qed

lemma generateLegs_probabilities:
  assumes "generateLegs tm pid pname gameLogs lastN minP minS minT = Inr out" and "leg \<in> set out"
  shows "4 \<le> spec_n (statType leg) (selectLogs tm gameLogs lastN)
    \<and> Leg.sampleSize leg = spec_n (statType leg) (selectLogs tm gameLogs lastN)
    \<and> Leg.rawProb leg
        = real (spec_k (statType leg) (threshold leg) (selectLogs tm gameLogs lastN))
          / real (spec_n (statType leg) (selectLogs tm gameLogs lastN))
    \<and> Leg.smoothedProb leg
        = (real (spec_k (statType leg) (threshold leg) (selectLogs tm gameLogs lastN)) + 4)
          / (real (spec_n (statType leg) (selectLogs tm gameLogs lastN)) + 6)"
proof -
  let ?ls = "selectLogs tm gameLogs lastN"
  let ?Q = "\<lambda>leg. 4 \<le> spec_n (statType leg) ?ls
    \<and> Leg.sampleSize leg = spec_n (statType leg) ?ls
    \<and> Leg.rawProb leg = real (spec_k (statType leg) (threshold leg) ?ls)
          / real (spec_n (statType leg) ?ls)
    \<and> Leg.smoothedProb leg = (real (spec_k (statType leg) (threshold leg) ?ls) + 4)
          / (real (spec_n (statType leg) ?ls) + 6)"
  have step: "?Q l" if suff: "hasSufficientStatData ?ls st 4"
    and hit: "thresholdLoop pid pname ?ls st minP minS thrs = Inr (Some l)" for st thrs l
  proof -
    from suff have n4: "4 \<le> spec_n st ?ls"
      by (simp add: hasSufficientStatData_def length_statValues split: if_splits)
    then have pos: "0 < spec_n st ?ls" by simp
    from thresholdLoop_fields [OF hit] show ?thesis
      using n4 by (simp add: calculateProbability_pos [OF pos] DEFAULT_BETA_A_def
          DEFAULT_BETA_B_def add.assoc)
  qed
  show ?thesis
  proof (cases "calculateAverageTouchesPerGame ?ls < minT")
    case True
    with assms show ?thesis by (simp add: generateLegs_def)
  next
    case False
    with assms(1) obtain raw where
      raw: "statLoop pid pname ?ls minP minS STAT_THRESHOLDS [] = Inr raw"
        "out = arraySort legCompare raw"
      by (auto simp: generateLegs_def split: sum.splits)
    have "\<forall>l \<in> set raw. ?Q l"
      by (rule statLoop_all [where acc = "[]", OF _ _ raw(1)]) (use step in auto)
    with assms(2) raw(2) show ?thesis by (simp add: set_arraySort)
  qed
qed







lemma logTouches_no_proxy:
  "pos \<noteq> Some ''RB'' \<Longrightarrow> pos \<noteq> Some ''WR'' \<Longrightarrow> pos \<noteq> Some ''TE'' \<Longrightarrow> logTouches pos lg = 0"
  by (simp add: logTouches_def)

subsection \<open>Evaluation of the examples\<close>

lemmas eval_defs = generateLegs_def selectLogs_def arraySort_def dateDesc_def exampleTime_def
  slice0_def calculateAverageTouchesPerGame_def touchesStep_def logTouches_def toUpperCase_def
  upperChar_def hasSufficientStatData_def statValues_def List.map_filter_simps
  calculateProbability_def STAT_THRESHOLDS_def blankLog_def
  DEFAULT_BETA_A_def DEFAULT_BETA_B_def DEFAULT_MIN_PROBABILITY_def DEFAULT_MIN_SAMPLE_SIZE_def
  DEFAULT_MIN_TOUCHES_PER_GAME_def Let_def

lemma wrSeason_legs:
  "\<exists>leg. generateLegs exampleTime ''p1'' None wrSeason None DEFAULT_MIN_PROBABILITY
       DEFAULT_MIN_SAMPLE_SIZE DEFAULT_MIN_TOUCHES_PER_GAME = Inr [leg]"
  by (simp add: eval_defs wrSeason_def wrLog_def)






lemma qbSeason_filtered:
  "generateLegs exampleTime ''p1'' None qbSeason None DEFAULT_MIN_PROBABILITY
     DEFAULT_MIN_SAMPLE_SIZE 101 = Inr []"
  by (simp add: eval_defs qbSeason_def qbLog_def)







subsection \<open>Combination enumeration and validity\<close>

lemma fold_preserves:
  assumes "\<And>i acc. i \<in> set xs \<Longrightarrow> P acc \<Longrightarrow> P (f i acc)" and "P a"
  shows "P (fold f xs a)"
  using assms by (induction xs arbitrary: a) auto

lemma legs_makeParlay: "legs (makeParlay current) = current"
  by (simp add: makeParlay_def Let_def)

lemma generateCombinations_valid:
  assumes "\<forall>p \<in> set parlays. isValidParlay (legs p) cnt allowGame allowStack"
  shows "\<forall>p \<in> set (generateCombinations cnt allowGame allowStack arr sz start current parlays).
           isValidParlay (legs p) cnt allowGame allowStack"
  using assms
proof (induction cnt allowGame allowStack arr sz start current parlays
    rule: generateCombinations.induct)
  case (1 cnt allowGame allowStack arr sz start current parlays)
  show ?case
  proof (cases "real (length current) = sz")
    case True
    with "1.prems" show ?thesis
      by (subst generateCombinations.simps) (simp add: legs_makeParlay)
  next
    case False
    have "\<forall>p \<in> set (fold (\<lambda>i ps. generateCombinations cnt allowGame allowStack arr sz (i + 1)
                        (current @ [arr ! i]) ps) [start ..< length arr] parlays).
            isValidParlay (legs p) cnt allowGame allowStack"
      by (rule fold_preserves [where P = "\<lambda>ps. \<forall>p \<in> set ps. isValidParlay (legs p) cnt allowGame allowStack"])
         (use "1.IH" [OF False] "1.prems" in blast)+
    with False show ?thesis
      by (subst generateCombinations.simps) (simp only: if_False)
  qed
qed

lemma gameLoop_iff:
  assumes "\<forall>k c. map_of m k = Some c \<longrightarrow> 1 \<le> c"
  shows "gameLoop ls m \<longleftrightarrow>
     distinct (map gameKeyOf ls) \<and> (\<forall>l \<in> set ls. map_of m (gameKeyOf l) = None)"
  using assms
proof (induction ls arbitrary: m)
  case Nil
  then show ?case by simp
next
  case (Cons leg rest)
  show ?case
  proof (cases "map_of m (gameKeyOf leg)")
    case None
    have inv: "\<forall>k c. map_of (AList.update (gameKeyOf leg) 1 m) k = Some c \<longrightarrow> 1 \<le> c"
      using Cons.prems by (simp add: update_conv')
    from None have "gameLoop (leg # rest) m = gameLoop rest (AList.update (gameKeyOf leg) 1 m)"
      by (simp add: nextCount_def Let_def)
    also have "\<dots> \<longleftrightarrow> distinct (map gameKeyOf rest)
        \<and> (\<forall>l \<in> set rest. map_of (AList.update (gameKeyOf leg) 1 m) (gameKeyOf l) = None)"
      by (rule Cons.IH [OF inv])
    also have "\<dots> \<longleftrightarrow> distinct (map gameKeyOf (leg # rest))
        \<and> (\<forall>l \<in> set (leg # rest). map_of m (gameKeyOf l) = None)"
      using None by (force simp: update_conv' image_iff)
    finally show ?thesis .
  next
    case (Some c)
    with Cons.prems have "1 \<le> c" by blast
    with Some show ?thesis
      by (simp add: nextCount_def Let_def)
  qed
qed

lemma gameLoop_distinct: "gameLoop ls [] \<longleftrightarrow> distinct (map gameKeyOf ls)"
  using gameLoop_iff [of "[]" ls] by simp

lemma isValidParlay_D:
  assumes "isValidParlay ls cnt allowGame allowStack"
  shows "real (length ls) = cnt" and "distinct (map Leg.playerId ls)"
    and "\<not> allowGame \<Longrightarrow> distinct (map gameKeyOf ls)"
proof -
  from assms show "real (length ls) = cnt"
    by (simp add: isValidParlay_def split: if_splits)
  from assms have "length (remdups (map Leg.playerId ls)) = length (map Leg.playerId ls)"
    by (simp add: isValidParlay_def split: if_splits)
  then show "distinct (map Leg.playerId ls)"
    by (metis length_remdups_eq remdups_id_iff_distinct)
  assume "\<not> allowGame"
  with assms have "gameLoop ls []"
    by (simp add: isValidParlay_def split: if_splits)
  then show "distinct (map gameKeyOf ls)"
    by (simp add: gameLoop_distinct)
qed


lemma fold_append_each:
  "fold (\<lambda>i ps. ps @ g i) xs ps = ps @ concat (map g xs)"
  by (induction xs arbitrary: ps) auto

lemma combinations_by_first:
  "map ((@) current) (combinationsOf (Suc m) (drop start arr)) =
     concat (map (\<lambda>i. map ((@) (current @ [arr ! i])) (combinationsOf m (drop (i + 1) arr)))
               [start ..< length arr])"
proof (induction "length arr - start" arbitrary: start)
  case 0
  then show ?case by simp
next
  case (Suc d)
  then have lt: "start < length arr" by simp
  have d: "drop start arr = arr ! start # drop (Suc start) arr"
    using lt by (simp add: Cons_nth_drop_Suc)
  have u: "[start ..< length arr] = start # [Suc start ..< length arr]"
    using lt by (simp add: upt_conv_Cons)
  have ih: "map ((@) current) (combinationsOf (Suc m) (drop (Suc start) arr)) =
     concat (map (\<lambda>i. map ((@) (current @ [arr ! i])) (combinationsOf m (drop (i + 1) arr)))
               [Suc start ..< length arr])"
    using Suc.hyps(1) [of "Suc start"] Suc.hyps(2) by simp
  show ?case
    unfolding d u using ih by simp
qed

lemma generateCombinations_closed:
  assumes "length current \<le> k"
  shows "generateCombinations cnt allowGame allowStack arr (real k) start current parlays =
     parlays @ map makeParlay
       (filter (\<lambda>c. isValidParlay c cnt allowGame allowStack)
          (map ((@) current) (combinationsOf (k - length current) (drop start arr))))"
  using assms
proof (induction "k - length current" arbitrary: current start parlays)
  case 0
  then have "real (length current) = real k" by simp
  then show ?case
    using 0 by (subst generateCombinations.simps) simp
next
  case (Suc m)
  then have ne: "real (length current) \<noteq> real k" by simp
  have m: "k - length current = Suc m" using Suc.hyps(2) by simp
  let ?G = "\<lambda>i. map makeParlay
       (filter (\<lambda>c. isValidParlay c cnt allowGame allowStack)
          (map ((@) (current @ [arr ! i])) (combinationsOf m (drop (i + 1) arr))))"
  have step: "generateCombinations cnt allowGame allowStack arr (real k) (i + 1)
                (current @ [arr ! i]) ps = ps @ ?G i" for i ps
  proof -
    have "m = k - length (current @ [arr ! i])" using m by simp
    moreover have "length (current @ [arr ! i]) \<le> k" using m by simp
    ultimately show ?thesis
      using Suc.hyps(1) [of "current @ [arr ! i]" "i + 1" ps] by simp
  qed
  have "generateCombinations cnt allowGame allowStack arr (real k) start current parlays
        = fold (\<lambda>i ps. ps @ ?G i) [start ..< length arr] parlays"
  proof -
    have "generateCombinations cnt allowGame allowStack arr (real k) (i + 1)
                (current @ [arr ! i]) = (\<lambda>ps. ps @ ?G i)" for i
      using step by (intro ext)
    with ne show ?thesis
      by (subst generateCombinations.simps) (simp only: if_False)
  qed
  also have "\<dots> = parlays @ concat (map ?G [start ..< length arr])"
    by (rule fold_append_each)
  also have "concat (map ?G [start ..< length arr]) =
     map makeParlay
       (filter (\<lambda>c. isValidParlay c cnt allowGame allowStack)
          (concat (map (\<lambda>i. map ((@) (current @ [arr ! i])) (combinationsOf m (drop (i + 1) arr)))
               [start ..< length arr])))"
    by (simp add: map_concat filter_concat comp_def)
  also have "concat (map (\<lambda>i. map ((@) (current @ [arr ! i])) (combinationsOf m (drop (i + 1) arr)))
               [start ..< length arr])
        = map ((@) current) (combinationsOf (Suc m) (drop start arr))"
    by (rule combinations_by_first [symmetric])
  finally show ?case by (simp only: m)
qed

lemma generateCombinations_none:
  assumes "\<forall>n \<ge> length current. real n \<noteq> sz"
  shows "generateCombinations cnt allowGame allowStack arr sz start current parlays = parlays"
  using assms
proof (induction cnt allowGame allowStack arr sz start current parlays
    rule: generateCombinations.induct)
  case (1 cnt allowGame allowStack arr sz start current parlays)
  from "1.prems" have ne: "real (length current) \<noteq> sz" by blast
  have "fold (\<lambda>i ps. generateCombinations cnt allowGame allowStack arr sz (i + 1)
                        (current @ [arr ! i]) ps) [start ..< length arr] parlays = parlays"
    by (rule fold_preserves [where P = "\<lambda>ps. ps = parlays"])
       (use "1.IH" [OF ne] "1.prems" in auto)
  with ne show ?case
    by (subst generateCombinations.simps) (simp only: if_False)
qed

subsection \<open>Facts about \<open>generateParlays\<close>\<close>

lemma generateParlays_unfold:
  "generateParlays candidateLegs options =
     map fst (arraySort parlayCompare
       (map (\<lambda>parlay. (parlay, avgLegProb parlay))
          (generateCombinations (resolvedLegCount options) (resolvedAllowSameGame options)
             (resolvedAllowStack options) (filteredLegsOf candidateLegs options)
             (resolvedLegCount options) 0 [] [])))"
  by (simp add: generateParlays_def resolvedLegCount_def resolvedAllowSameGame_def
      resolvedAllowStack_def filteredLegsOf_def Let_def)

lemma set_generateParlays:
  "set (generateParlays candidateLegs options) =
     set (generateCombinations (resolvedLegCount options) (resolvedAllowSameGame options)
             (resolvedAllowStack options) (filteredLegsOf candidateLegs options)
             (resolvedLegCount options) 0 [] [])"
  by (simp add: generateParlays_unfold set_arraySort image_image)

lemma generateParlays_valid:
  assumes "p \<in> set (generateParlays candidateLegs options)"
  shows "isValidParlay (legs p) (resolvedLegCount options) (resolvedAllowSameGame options)
           (resolvedAllowStack options)"
  using assms generateCombinations_valid [of "[]" "resolvedLegCount options"
      "resolvedAllowSameGame options" "resolvedAllowStack options"
      "filteredLegsOf candidateLegs options" "resolvedLegCount options" 0 "[]"]
  by (simp add: set_generateParlays)

lemma generateCombinations_top:
  "generateCombinations cnt allowGame allowStack arr (real k) 0 [] [] =
     map makeParlay (filter (\<lambda>c. isValidParlay c cnt allowGame allowStack) (combinationsOf k arr))"
proof -
  have "map ((@) []) (combinationsOf k arr) = combinationsOf k arr"
    by (induction "combinationsOf k arr") auto
  then show ?thesis
    using generateCombinations_closed [of "[]" k cnt allowGame allowStack arr 0 "[]"] by simp
qed

lemma generateParlays_natural:
  "resolvedLegCount options = real k \<Longrightarrow>
   mset (generateParlays candidateLegs options) =
     mset (map makeParlay
       (filter (\<lambda>c. isValidParlay c (real k) (resolvedAllowSameGame options)
                       (resolvedAllowStack options))
          (combinationsOf k (filteredLegsOf candidateLegs options))))"
proof -
  assume k: "resolvedLegCount options = real k"
  have "mset (generateParlays candidateLegs options) =
    mset (generateCombinations (real k) (resolvedAllowSameGame options)
             (resolvedAllowStack options) (filteredLegsOf candidateLegs options)
             (real k) 0 [] [])"
    unfolding generateParlays_unfold k
    by (metis (no_types, lifting) mset_arraySort mset_map map_map comp_def fst_conv map_idI)
  then show ?thesis
    by (simp only: generateCombinations_top)
qed

lemma length_generateParlays_example:
  "length (generateParlays exampleLegs (exampleOptions (Some 2))) = 3"
proof -
  have "resolvedLegCount (exampleOptions (Some 2)) = real 2"
    by (simp add: resolvedLegCount_def exampleOptions_def)
  from generateParlays_natural [OF this, of exampleLegs]
  have "size (mset (generateParlays exampleLegs (exampleOptions (Some 2)))) =
     size (mset (map makeParlay
       (filter (\<lambda>c. isValidParlay c (real 2) (resolvedAllowSameGame (exampleOptions (Some 2)))
                       (resolvedAllowStack (exampleOptions (Some 2))))
          (combinationsOf 2 (filteredLegsOf exampleLegs (exampleOptions (Some 2)))))))"
    by simp
  also have "\<dots> = 3"
    by (simp add: numeral_2_eq_2 filteredLegsOf_def exampleLegs_def exampleLeg_def exampleOptions_def
        resolvedAllowSameGame_def resolvedAllowStack_def isValidParlay_def gameKeyOf_def
        truthy_def nextCount_def violatesSameTeamStack_def isQBPassingYards_def
        isWRTEReceivingYards_def Let_def)
  finally show ?thesis by simp
qed

lemma length_generateParlays_clamped:
  "length (generateParlays exampleLegs (exampleOptions (Some 1))) = 3"
proof -
  have "resolvedLegCount (exampleOptions (Some 1)) = real 2"
    by (simp add: resolvedLegCount_def exampleOptions_def)
  from generateParlays_natural [OF this, of exampleLegs]
  have "size (mset (generateParlays exampleLegs (exampleOptions (Some 1)))) =
     size (mset (map makeParlay
       (filter (\<lambda>c. isValidParlay c (real 2) (resolvedAllowSameGame (exampleOptions (Some 1)))
                       (resolvedAllowStack (exampleOptions (Some 1))))
          (combinationsOf 2 (filteredLegsOf exampleLegs (exampleOptions (Some 1)))))))"
    by simp
  also have "\<dots> = 3"
    by (simp add: numeral_2_eq_2 filteredLegsOf_def exampleLegs_def exampleLeg_def exampleOptions_def
        resolvedAllowSameGame_def resolvedAllowStack_def isValidParlay_def gameKeyOf_def
        truthy_def nextCount_def violatesSameTeamStack_def isQBPassingYards_def
        isWRTEReceivingYards_def Let_def)
  finally show ?thesis by simp
qed

lemma generateCombinations_all:
  assumes "\<forall>p \<in> set parlays. P p"
    and "\<And>c. isValidParlay c cnt allowGame allowStack \<Longrightarrow> P (makeParlay c)"
  shows "\<forall>p \<in> set (generateCombinations cnt allowGame allowStack arr sz start current parlays). P p"
  using assms
proof (induction cnt allowGame allowStack arr sz start current parlays
    rule: generateCombinations.induct)
  case (1 cnt allowGame allowStack arr sz start current parlays)
  show ?case
  proof (cases "real (length current) = sz")
    case True
    with "1.prems" show ?thesis
      by (subst generateCombinations.simps) auto
  next
    case False
    have "\<forall>p \<in> set (fold (\<lambda>i ps. generateCombinations cnt allowGame allowStack arr sz (i + 1)
                        (current @ [arr ! i]) ps) [start ..< length arr] parlays). P p"
      by (rule fold_preserves [where P = "\<lambda>ps. \<forall>p \<in> set ps. P p"])
         (use "1.IH" [OF False] "1.prems" in blast)+
    with False show ?thesis
      by (subst generateCombinations.simps) (simp only: if_False)
  qed
qed

lemma generateParlays_est:
  assumes "p \<in> set (generateParlays candidateLegs options)"
  shows "estProbability p = Some (estimatedProbability p)"
  using assms generateCombinations_all [of "[]" "\<lambda>p. estProbability p = Some (estimatedProbability p)"
      "resolvedLegCount options" "resolvedAllowSameGame options" "resolvedAllowStack options"
      "filteredLegsOf candidateLegs options" "resolvedLegCount options" 0 "[]"]
  by (simp add: set_generateParlays makeParlay_def Let_def)

lemma foldl_plus: "foldl (\<lambda>sum x. sum + f x) a xs = a + sum_list (map f xs)"
  for a :: real
  by (induction xs arbitrary: a) auto

lemma avgLegProb_mean: "avgLegProb p = spec_meanProb p"
  by (simp add: avgLegProb_def spec_meanProb_def foldl_plus)

lemma sorted_sortInsert:
  assumes tot: "\<And>a b. a \<in> A \<Longrightarrow> b \<in> A \<Longrightarrow> cmp a b \<le> 0 \<or> cmp b a \<le> 0"
    and trans: "\<And>a b c. a \<in> A \<Longrightarrow> b \<in> A \<Longrightarrow> c \<in> A \<Longrightarrow>
                 cmp a b \<le> 0 \<Longrightarrow> cmp b c \<le> 0 \<Longrightarrow> cmp a c \<le> 0"
    and "x \<in> A" "set ys \<subseteq> A" "sorted_wrt (\<lambda>a b. cmp a b \<le> 0) ys"
  shows "sorted_wrt (\<lambda>a b. cmp a b \<le> 0) (sortInsert cmp x ys)"
  using assms(3-)
proof (induction ys)
  case Nil
  then show ?case by simp
next
  case (Cons y ys)
  show ?case
  proof (cases "cmp x y \<le> 0")
    case True
    have "cmp x z \<le> 0" if "z \<in> set ys" for z
      using trans [of x y z] True Cons.prems that by auto
    with True Cons.prems show ?thesis by auto
  next
    case False
    then have yx: "cmp y x \<le> 0"
      using tot [of x y] Cons.prems by auto
    have "sorted_wrt (\<lambda>a b. cmp a b \<le> 0) (sortInsert cmp x ys)"
      using Cons by auto
    moreover have "\<forall>z \<in> set (sortInsert cmp x ys). cmp y z \<le> 0"
      using yx Cons.prems
      by (metis insert_iff mset_sortInsert set_mset_add_mset_insert set_mset_mset sorted_wrt.simps(2))
    ultimately show ?thesis using False by simp
  qed
qed

lemma sorted_arraySort:
  assumes tot: "\<And>a b. a \<in> set xs \<Longrightarrow> b \<in> set xs \<Longrightarrow> cmp a b \<le> 0 \<or> cmp b a \<le> 0"
    and trans: "\<And>a b c. a \<in> set xs \<Longrightarrow> b \<in> set xs \<Longrightarrow> c \<in> set xs \<Longrightarrow>
                 cmp a b \<le> 0 \<Longrightarrow> cmp b c \<le> 0 \<Longrightarrow> cmp a c \<le> 0"
  shows "sorted_wrt (\<lambda>a b. cmp a b \<le> 0) (arraySort cmp xs)"
proof -
  have "set ys \<subseteq> set xs \<Longrightarrow> sorted_wrt (\<lambda>a b. cmp a b \<le> 0) (arraySort cmp ys)" for ys
  proof (induction ys)
    case Nil
    then show ?case by (simp add: arraySort_def)
  next
    case (Cons y ys)
    have "sorted_wrt (\<lambda>a b. cmp a b \<le> 0) (sortInsert cmp y (arraySort cmp ys))"
    proof (rule sorted_sortInsert [where A = "set xs"])
      show "\<And>a b. a \<in> set xs \<Longrightarrow> b \<in> set xs \<Longrightarrow> cmp a b \<le> 0 \<or> cmp b a \<le> 0"
        by (rule tot)
      show "\<And>a b c. a \<in> set xs \<Longrightarrow> b \<in> set xs \<Longrightarrow> c \<in> set xs \<Longrightarrow>
                 cmp a b \<le> 0 \<Longrightarrow> cmp b c \<le> 0 \<Longrightarrow> cmp a c \<le> 0"
        by (rule trans)
      show "y \<in> set xs" using Cons.prems by simp
      show "set (arraySort cmp ys) \<subseteq> set xs" using Cons.prems by (simp add: set_arraySort)
      show "sorted_wrt (\<lambda>a b. cmp a b \<le> 0) (arraySort cmp ys)" using Cons by simp
    qed
    then show ?case by (simp add: arraySort_def)
  qed
  then show ?thesis by simp
qed

lemma parlayCompare_le:
  assumes "estProbability (fst a) = Some (estimatedProbability (fst a))"
    and "estProbability (fst b) = Some (estimatedProbability (fst b))"
    and "snd a = spec_meanProb (fst a)" "snd b = spec_meanProb (fst b)"
  shows "parlayCompare a b \<le> 0 \<longleftrightarrow> rankedBefore (fst a) (fst b)"
  using assms by (auto simp: parlayCompare_def rankedBefore_def)

lemma rankedBefore_total: "rankedBefore p q \<or> rankedBefore q p"
  by (auto simp: rankedBefore_def)

lemma rankedBefore_trans: "rankedBefore p q \<Longrightarrow> rankedBefore q r \<Longrightarrow> rankedBefore p r"
  by (auto simp: rankedBefore_def)

lemma generateParlays_sorted: "sorted_wrt rankedBefore (generateParlays candidateLegs options)"
proof -
  let ?ps = "generateCombinations (resolvedLegCount options) (resolvedAllowSameGame options)
             (resolvedAllowStack options) (filteredLegsOf candidateLegs options)
             (resolvedLegCount options) 0 [] []"
  let ?xs = "map (\<lambda>parlay. (parlay, avgLegProb parlay)) ?ps"
  have good: "estProbability (fst a) = Some (estimatedProbability (fst a))
              \<and> snd a = spec_meanProb (fst a)" if "a \<in> set ?xs" for a
  proof -
    from that obtain p where "p \<in> set ?ps" "a = (p, avgLegProb p)" by auto
    then show ?thesis
      using generateParlays_est [of p candidateLegs options]
      by (simp add: set_generateParlays avgLegProb_mean)
  qed
  have cmp: "parlayCompare a b \<le> 0 \<longleftrightarrow> rankedBefore (fst a) (fst b)"
    if "a \<in> set ?xs" "b \<in> set ?xs" for a b
    using good [OF that(1)] good [OF that(2)] by (simp add: parlayCompare_le)
  have s: "sorted_wrt (\<lambda>a b. parlayCompare a b \<le> 0) (arraySort parlayCompare ?xs)"
  proof (rule sorted_arraySort)
    fix a b assume "a \<in> set ?xs" "b \<in> set ?xs"
    then show "parlayCompare a b \<le> 0 \<or> parlayCompare b a \<le> 0"
      using cmp rankedBefore_total by blast
  next
    fix a b c assume "a \<in> set ?xs" "b \<in> set ?xs" "c \<in> set ?xs"
      "parlayCompare a b \<le> 0" "parlayCompare b c \<le> 0"
    then show "parlayCompare a c \<le> 0"
      using cmp rankedBefore_trans by blast
  qed
  have "sorted_wrt (\<lambda>a b. rankedBefore (fst a) (fst b)) (arraySort parlayCompare ?xs)"
    by (rule sorted_wrt_mono_rel [OF _ s]) (use cmp in \<open>simp add: set_arraySort\<close>)
  then show ?thesis
    by (simp add: generateParlays_unfold sorted_wrt_map)
qed

lemma generateParlays_adjusted:
  assumes "p \<in> set (generateParlays candidateLegs options)"
  shows "estimatedProbability p = fst (calculateParlayPenalties (legs p))"
    and "estProbability p = Some (fst (calculateParlayPenalties (legs p)))"
  using assms generateCombinations_all [of "[]"
      "\<lambda>p. estimatedProbability p = fst (calculateParlayPenalties (legs p))
           \<and> estProbability p = Some (fst (calculateParlayPenalties (legs p)))"
      "resolvedLegCount options" "resolvedAllowSameGame options" "resolvedAllowStack options"
      "filteredLegsOf candidateLegs options" "resolvedLegCount options" 0 "[]"]
  by (simp_all add: set_generateParlays makeParlay_def Let_def)

lemma generateParlays_ordered:
  "sorted_wrt orderedByAdjusted (generateParlays candidateLegs options)"
proof (rule sorted_wrt_mono_rel [OF _ generateParlays_sorted])
  fix p q
  assume "p \<in> set (generateParlays candidateLegs options)"
    and "q \<in> set (generateParlays candidateLegs options)"
    and "rankedBefore p q"
  then show "orderedByAdjusted p q"
    by (simp add: rankedBefore_def orderedByAdjusted_def spec_meanProb_def
        generateParlays_adjusted(1))
qed

lemma estimated_generateParlays_example:
  "map (\<lambda>p. (map Leg.playerId (legs p), estimatedProbability p))
     (generateParlays exampleLegs (exampleOptions (Some 2)))
   = [([''a'', ''b''], 0.90 * 0.85), ([''a'', ''c''], 0.90 * 0.80), ([''b'', ''c''], 0.85 * 0.80)]"
proof -
  have k: "resolvedLegCount (exampleOptions (Some 2)) = real 2"
    by (simp add: resolvedLegCount_def exampleOptions_def)
  show ?thesis
    unfolding generateParlays_unfold k generateCombinations_top
    by (simp add: numeral_2_eq_2 filteredLegsOf_def exampleLegs_def exampleLeg_def exampleOptions_def
        resolvedAllowSameGame_def resolvedAllowStack_def isValidParlay_def gameKeyOf_def
        truthy_def nextCount_def violatesSameTeamStack_def isQBPassingYards_def
        isWRTEReceivingYards_def Let_def makeParlay_def calculateParlayPenalties_def
        gameCountsOf_def sameGameStep_def teamStep_def sameTeamStep_def stackStep_def
        calculateParlayProbability_def
        arraySort_def parlayCompare_def avgLegProb_def)
qed

subsection \<open>Facts about the penalties\<close>

lemma set_firstOccurrences: "set (firstOccurrences xs) = set xs"
  by (induction xs rule: firstOccurrences.induct) auto

lemma distinct_firstOccurrences: "distinct (firstOccurrences xs)"
  by (induction xs rule: firstOccurrences.induct) (auto simp: set_firstOccurrences)

lemma count_fold_map_of:
  "map_of (fold (\<lambda>x c. AList.update (f x) (nextCount c (f x)) c) xs m) k =
     (if k \<in> f ` set xs
      then Some ((case map_of m k of None \<Rightarrow> 0 | Some c \<Rightarrow> c) + count_list (map f xs) k)
      else map_of m k)"
proof (induction xs arbitrary: m)
  case Nil
  then show ?case by simp
next
  case (Cons x xs)
  let ?F = "\<lambda>x c. AList.update (f x) (nextCount c (f x)) c"
  let ?m = "AList.update (f x) (nextCount m (f x)) m"
  have "map_of (fold ?F (x # xs) m) k = map_of (fold ?F xs ?m) k"
    by simp
  also have "\<dots> = (if k \<in> f ` set xs
      then Some ((case map_of ?m k of None \<Rightarrow> 0 | Some c \<Rightarrow> c) + count_list (map f xs) k)
      else map_of ?m k)"
    by (rule Cons.IH)
  also have "\<dots> = (if k \<in> f ` set (x # xs)
      then Some ((case map_of m k of None \<Rightarrow> 0 | Some c \<Rightarrow> c) + count_list (map f (x # xs)) k)
      else map_of m k)"
    by (auto simp: update_conv' nextCount_def split: option.splits)
  finally show ?case .
qed

lemma count_fold_keys:
  "map fst (fold (\<lambda>x c. AList.update (f x) (nextCount c (f x)) c) xs m) =
     map fst m @ firstOccurrences (filter (\<lambda>k. k \<notin> fst ` set m) (map f xs))"
proof (induction xs arbitrary: m)
  case Nil
  then show ?case by simp
next
  case (Cons x xs)
  let ?m = "AList.update (f x) (nextCount m (f x)) m"
  have img: "fst ` set ?m = set (map fst ?m)" by simp
  have step: "map fst (fold (\<lambda>x c. AList.update (f x) (nextCount c (f x)) c) (x # xs) m)
      = map fst ?m @ firstOccurrences (filter (\<lambda>k. k \<notin> set (map fst ?m)) (map f xs))"
    using Cons.IH [of ?m] by (simp only: fold_simps img)
  show ?case
  proof (cases "f x \<in> fst ` set m")
    case True
    then have "map fst ?m = map fst m"
      by (simp add: update_keys)
    with True show ?thesis
      unfolding step by simp
  next
    case False
    then have k: "map fst ?m = map fst m @ [f x]"
      by (simp add: update_keys)
    have "filter (\<lambda>k. k \<noteq> f x \<and> k \<notin> fst ` set m) (map f xs)
          = filter (\<lambda>y. y \<noteq> f x) (filter (\<lambda>k. k \<notin> fst ` set m) (map f xs))"
      by (simp add: conj_commute)
    with False show ?thesis
      unfolding step k by simp
  qed
qed

lemma alist_by_keys:
  "distinct (map fst al) \<Longrightarrow> al = map (\<lambda>k. (k, the (map_of al k))) (map fst al)"
proof (induction al)
  case Nil
  then show ?case by simp
next
  case (Cons e al)
  obtain k v where e: "e = (k, v)" by (cases e)
  from Cons.prems e have "k \<notin> fst ` set al" "distinct (map fst al)" by auto
  then have "map (\<lambda>k'. (k', the (map_of ((k, v) # al) k'))) (map fst al)
           = map (\<lambda>k'. (k', the (map_of al k'))) (map fst al)"
    by (intro map_cong) auto
  with Cons.IH [OF \<open>distinct (map fst al)\<close>] e show ?case by simp
qed

lemma gameCountsOf_closed:
  "gameCountsOf ls =
     map (\<lambda>k. (k, count_list (map gameKeyOf ls) k)) (firstOccurrences (map gameKeyOf ls))"
proof -
  have keys: "map fst (gameCountsOf ls) = firstOccurrences (map gameKeyOf ls)"
    unfolding gameCountsOf_def using count_fold_keys [of gameKeyOf ls "[]"] by simp
  then have d: "distinct (map fst (gameCountsOf ls))"
    by (simp add: distinct_firstOccurrences)
  have "the (map_of (gameCountsOf ls) k) = count_list (map gameKeyOf ls) k"
    if "k \<in> set (firstOccurrences (map gameKeyOf ls))" for k
    using that unfolding gameCountsOf_def
    by (simp add: count_fold_map_of set_firstOccurrences)
  then have "map (\<lambda>k. (k, the (map_of (gameCountsOf ls) k))) (firstOccurrences (map gameKeyOf ls))
       = map (\<lambda>k. (k, count_list (map gameKeyOf ls) k)) (firstOccurrences (map gameKeyOf ls))"
    by (intro map_cong) auto
  with alist_by_keys [OF d] keys show ?thesis by simp
qed

lemma fold_sameGameStep:
  "fold sameGameStep entries st =
     (fst st * prod_list (map (\<lambda>e. 0.90 ^ (snd e - 1)) (filter (\<lambda>e. 1 < snd e) entries)),
      snd st @ map (\<lambda>e. \<lparr>type = ''same_game'', amount = 1 - 0.90 ^ (snd e - 1),
                         reason = showNat (snd e) @ '' legs from same game ('' @ fst e @ '') - ''
                            @ toFixed1 ((1 - 0.90 ^ (snd e - 1)) * 100) @ ''% penalty''\<rparr>)
                 (filter (\<lambda>e. 1 < snd e) entries))"
  by (induction entries arbitrary: st) (auto simp: sameGameStep_def Let_def mult.assoc)

lemma sameGame_loop:
  "fold sameGameStep (gameCountsOf ls) (1, []) =
     (sameGameFactor ls, map (sameGamePenalty ls) (sharedGames ls))"
  by (simp add: fold_sameGameStep gameCountsOf_closed sameGameFactor_def sharedGames_def
      sameGamePenalty_def filter_map comp_def Let_def)

lemma scalesBy_id: "scalesBy (\<lambda>st. st)"
  unfolding scalesBy_def by (intro exI [of _ 1] exI [of _ "[]"]) simp

lemma scalesBy_comp:
  assumes "scalesBy g" "scalesBy h"
  shows "scalesBy (\<lambda>st. h (g st))"
proof -
  from assms obtain m ps n qs where
    g: "0 < m" "m \<le> 1" "\<forall>p \<in> set ps. type p = ''same_team'' \<or> type p = ''qb_wr_stack''"
       "\<forall>st. g st = (fst st * m, snd st @ ps)"
    and h: "0 < n" "n \<le> 1" "\<forall>p \<in> set qs. type p = ''same_team'' \<or> type p = ''qb_wr_stack''"
       "\<forall>st. h st = (fst st * n, snd st @ qs)"
    unfolding scalesBy_def by blast
  have "0 < m * n" using g(1) h(1) by simp
  moreover have "m * n \<le> 1" using g(1,2) h(1,2) by (simp add: mult_le_one)
  moreover have "\<forall>p \<in> set (ps @ qs). type p = ''same_team'' \<or> type p = ''qb_wr_stack''"
    using g(3) h(3) by auto
  moreover have "\<forall>st. h (g st) = (fst st * (m * n), snd st @ (ps @ qs))"
    using g(4) h(4) by (simp add: mult.assoc)
  ultimately show ?thesis unfolding scalesBy_def by blast
qed

lemma scalesBy_fold:
  assumes "\<And>x. scalesBy (step x)"
  shows "scalesBy (fold step xs)"
proof (induction xs)
  case Nil
  then show ?case using scalesBy_id by (simp add: id_def)
next
  case (Cons x xs)
  have "scalesBy (\<lambda>st. fold step xs (step x st))"
    by (rule scalesBy_comp [OF assms Cons.IH])
  then show ?case by (simp add: comp_def)
qed

lemma scalesBy_sameTeamStep: "scalesBy (sameTeamStep entry)"
proof (cases "1 < snd entry")
  case True
  have "0 < (0.95::real) ^ (snd entry - 1)" by simp
  moreover have "(0.95::real) ^ (snd entry - 1) \<le> 1" by (simp add: power_le_one)
  ultimately show ?thesis
    unfolding scalesBy_def using True
    by (intro exI [of _ "0.95 ^ (snd entry - 1)"]
        exI [of _ "[\<lparr>type = ''same_team'', amount = 1 - 0.95 ^ (snd entry - 1),
                       reason = showNat (snd entry) @ '' legs from '' @ fst entry @ '' - ''
                                @ toFixed1 ((1 - 0.95 ^ (snd entry - 1)) * 100) @ ''% penalty''\<rparr>]"])
       (simp add: sameTeamStep_def Let_def)
next
  case False
  then have "sameTeamStep entry = (\<lambda>st. st)"
    by (intro ext) (simp add: sameTeamStep_def Let_def)
  then show ?thesis using scalesBy_id by simp
qed

lemma scalesBy_stackStep: "scalesBy (stackStep teamGroup)"
proof (cases "list_ex isQBPassingYards (snd teamGroup) \<and> list_ex isWRTEReceivingYards (snd teamGroup)")
  case True
  then show ?thesis
    unfolding scalesBy_def
    by (intro exI [of _ "0.85"]
        exI [of _ "[\<lparr>type = ''qb_wr_stack'', amount = 0.15,
                       reason = ''QB pass yards + WR/TE rec yards from '' @ fst teamGroup
                                @ '' - 15% penalty''\<rparr>]"])
       (simp add: stackStep_def Let_def)
next
  case False
  then have "stackStep teamGroup = (\<lambda>st. st)"
    by (intro ext) (auto simp: stackStep_def Let_def)
  then show ?thesis using scalesBy_id by simp
qed

lemma scalesBy_teamPenalties: "scalesBy (teamPenalties ls)"
proof -
  let ?teams = "fold teamStep ls ([], [])"
  have g: "scalesBy (fold sameTeamStep (fst ?teams))"
    by (rule scalesBy_fold) (rule scalesBy_sameTeamStep)
  have h: "scalesBy (fold stackStep (snd ?teams))"
    by (rule scalesBy_fold) (rule scalesBy_stackStep)
  have "teamPenalties ls
          = (\<lambda>st. fold stackStep (snd ?teams) (fold sameTeamStep (fst ?teams) st))"
    by (intro ext) (simp add: teamPenalties_def Let_def)
  with scalesBy_comp [OF g h] show ?thesis by simp
qed

lemma teamPenalties_shape:
  "\<exists>m ps. 0 < m \<and> m \<le> 1
     \<and> (\<forall>p \<in> set ps. type p = ''same_team'' \<or> type p = ''qb_wr_stack'')
     \<and> teamPenalties ls (1, []) = (m, ps)
     \<and> (\<forall>a b. teamPenalties ls (a, b) = (a * m, b @ ps))"
proof -
  from scalesBy_teamPenalties [of ls] obtain m ps where
    h: "0 < m" "m \<le> 1" "\<forall>p \<in> set ps. type p = ''same_team'' \<or> type p = ''qb_wr_stack''"
       "\<forall>st. teamPenalties ls st = (fst st * m, snd st @ ps)"
    unfolding scalesBy_def by blast
  from h(4) have "teamPenalties ls (1, []) = (m, ps)" by simp
  moreover from h(4) have "\<forall>a b. teamPenalties ls (a, b) = (a * m, b @ ps)" by simp
  ultimately show ?thesis using h(1-3) by blast
qed

lemma teamPenalties_from:
  "teamPenalties ls st =
     (fst st * fst (teamPenalties ls (1, [])), snd st @ snd (teamPenalties ls (1, [])))"
  using teamPenalties_shape [of ls] by (cases st) auto

lemma teamPenalties_factor_pos: "0 < fst (teamPenalties ls (1, []))"
  using teamPenalties_shape [of ls] by auto

lemma teamPenalties_factor_le: "fst (teamPenalties ls (1, [])) \<le> 1"
  using teamPenalties_shape [of ls] by auto

lemma teamPenalties_types:
  "p \<in> set (snd (teamPenalties ls (1, []))) \<Longrightarrow> type p = ''same_team'' \<or> type p = ''qb_wr_stack''"
  using teamPenalties_shape [of ls] by auto

lemma calculateParlayPenalties_closed:
  "calculateParlayPenalties ls =
     (max (calculateParlayProbability ls * (sameGameFactor ls * fst (teamPenalties ls (1, [])))) 0,
      map (sameGamePenalty ls) (sharedGames ls) @ snd (teamPenalties ls (1, [])))"
proof -
  have "calculateParlayPenalties ls =
     (let st3 = teamPenalties ls (fold sameGameStep (gameCountsOf ls) (1, []))
      in (max (calculateParlayProbability ls * fst st3) 0, snd st3))"
    by (simp add: calculateParlayPenalties_def teamPenalties_def Let_def)
  also have "teamPenalties ls (fold sameGameStep (gameCountsOf ls) (1, []))
      = (sameGameFactor ls * fst (teamPenalties ls (1, [])),
         map (sameGamePenalty ls) (sharedGames ls) @ snd (teamPenalties ls (1, [])))"
    by (subst teamPenalties_from) (simp add: sameGame_loop)
  finally show ?thesis by (simp add: Let_def)
qed

lemma foldl_times: "foldl (\<lambda>product x. product * f x) a xs = a * prod_list (map f xs)"
  for a :: real
  by (induction xs arbitrary: a) (auto simp: mult.assoc)

lemma calculateParlayProbability_prod:
  "calculateParlayProbability ls = prod_list (map Leg.smoothedProb ls)"
  by (simp add: calculateParlayProbability_def foldl_times)

lemma prod_list_unit_interval:
  "(\<And>x. x \<in> set xs \<Longrightarrow> 0 < x \<and> x \<le> 1) \<Longrightarrow> 0 < prod_list xs \<and> prod_list xs \<le> (1::real)"
proof (induction xs)
  case Nil
  then show ?case by simp
next
  case (Cons x xs)
  then have "0 < x" "x \<le> 1" "0 < prod_list xs" "prod_list xs \<le> 1" by auto
  then show ?case by (simp add: mult_le_one)
qed

lemma prod_list_probabilities:
  "(\<And>x. x \<in> set xs \<Longrightarrow> 0 \<le> x \<and> x \<le> 1) \<Longrightarrow> 0 \<le> prod_list xs \<and> prod_list xs \<le> (1::real)"
proof (induction xs)
  case Nil
  then show ?case by simp
next
  case (Cons x xs)
  then have "0 \<le> x" "x \<le> 1" "0 \<le> prod_list xs" "prod_list xs \<le> 1" by auto
  then show ?case by (simp add: mult_le_one)
qed

lemma sameGameFactor_unit: "0 < sameGameFactor ls \<and> sameGameFactor ls \<le> 1"
  unfolding sameGameFactor_def
  by (rule prod_list_unit_interval) (auto simp: power_le_one)

lemma type_sameGamePenalty: "type (sameGamePenalty ls k) = ''same_game''"
  and amount_sameGamePenalty:
    "amount (sameGamePenalty ls k) = 1 - 0.90 ^ (count_list (map gameKeyOf ls) k - 1)"
  by (simp_all add: sameGamePenalty_def Let_def)

lemma sameGame_entries:
  "filter (\<lambda>p. type p = ''same_game'') (snd (calculateParlayPenalties ls))
     = map (sameGamePenalty ls) (sharedGames ls)"
proof -
  have "type p \<noteq> ''same_game''" if "p \<in> set (snd (teamPenalties ls (1, [])))" for p
    using teamPenalties_types [OF that] by auto
  then have "filter (\<lambda>p. type p = ''same_game'') (snd (teamPenalties ls (1, []))) = []"
    by (simp add: filter_empty_conv)
  moreover have "filter (\<lambda>p. type p = ''same_game'') (map (sameGamePenalty ls) (sharedGames ls))
                   = map (sameGamePenalty ls) (sharedGames ls)"
    by (simp add: filter_map comp_def type_sameGamePenalty)
  ultimately show ?thesis
    by (simp add: calculateParlayPenalties_closed)
qed

lemma sharedGames_set:
  "distinct (sharedGames ls)"
  "set (sharedGames ls) = {k. 1 < count_list (map gameKeyOf ls) k}"
proof -
  show "distinct (sharedGames ls)"
    by (simp add: sharedGames_def distinct_firstOccurrences)
  have "k \<in> set (map gameKeyOf ls)" if "1 < count_list (map gameKeyOf ls) k" for k
    using that by (metis count_list_0_iff not_one_less_zero)
  then show "set (sharedGames ls) = {k. 1 < count_list (map gameKeyOf ls) k}"
    by (auto simp: sharedGames_def set_firstOccurrences)
qed

subsection \<open>Facts about the rounding\<close>

lemma roundHalfEven_nearest: "abs (real_of_int (roundHalfEven x) - x) \<le> 1 / 2"
  unfolding roundHalfEven_def Let_def by (auto simp: abs_if) linarith+

lemma scaleBy2_powr: "scaleBy2 a s = a * 2 powr (real_of_int s)"
  by (simp add: scaleBy2_def powr_int)

lemma bitlen_powr:
  assumes "0 < n"
  shows "2 powr (real_of_int (bitlen n) - 1) \<le> real_of_int n"
    and "real_of_int n + 1 \<le> 2 powr (real_of_int (bitlen n))"
proof -
  from assms have b1: "1 \<le> bitlen n" by (auto simp: bitlen_alt_def)
  from bitlen_bounds [OF assms] have lo: "2 ^ nat (bitlen n - 1) \<le> n" and hi: "n < 2 ^ nat (bitlen n)"
    by simp_all
  have "(2::real) powr real_of_int (bitlen n - 1) = 2 ^ nat (bitlen n - 1)"
    using b1 by (simp add: powr_int del: of_int_diff)
  then have e1: "(2::real) powr (real_of_int (bitlen n) - 1) = 2 ^ nat (bitlen n - 1)"
    by simp
  have e2: "(2::real) powr real_of_int (bitlen n) = 2 ^ nat (bitlen n)"
    using b1 by (simp add: powr_int)
  from lo have "real_of_int (2 ^ nat (bitlen n - 1)) \<le> real_of_int n"
    by (simp only: of_int_le_iff)
  then show "2 powr (real_of_int (bitlen n) - 1) \<le> real_of_int n"
    by (simp add: e1)
  from hi have "n + 1 \<le> 2 ^ nat (bitlen n)" by simp
  then have "real_of_int (n + 1) \<le> real_of_int (2 ^ nat (bitlen n))"
    by (simp only: of_int_le_iff)
  then show "real_of_int n + 1 \<le> 2 powr (real_of_int (bitlen n))"
    by (simp add: e2)
qed

text \<open>The scaled magnitude is a significand of 53 bits.\<close>

lemma significand_range:
  assumes "0 < a"
  shows "2 ^ 52 \<le> scaleBy2 a (significandShift a) \<and> scaleBy2 a (significandShift a) \<le> 2 ^ 53"
proof -
  define c :: real where "c = 2 ^ 52"
  have c: "0 \<le> c" "(2::real) powr 52 = c" "(2::real) ^ 52 = c" "(2::real) ^ 53 = 2 * c"
    by (simp_all add: c_def)
  have "\<exists>L. 0 < L \<and> L \<le> a \<and> a \<le> 2 * L \<and> scaleBy2 a (significandShift a) = a * (c / L)"
  proof (cases "1 \<le> a")
    case True
    then have n: "0 < \<lfloor>a\<rfloor>" by simp
    let ?b = "real_of_int (bitlen \<lfloor>a\<rfloor>)"
    from bitlen_powr [OF n] have "2 powr (?b - 1) \<le> a" and "a \<le> 2 powr ?b"
      by linarith+
    moreover have "2 powr ?b = 2 * 2 powr (?b - 1)"
      by (simp add: powr_diff)
    moreover have "scaleBy2 a (significandShift a) = a * 2 powr (52 - (?b - 1))"
      using True by (simp add: scaleBy2_powr significandShift_def)
    then have "scaleBy2 a (significandShift a) = a * (c / 2 powr (?b - 1))"
      by (simp only: powr_diff c)
    ultimately show ?thesis
      by (intro exI [of _ "2 powr (?b - 1)"]) simp
  next
    case False
    with assms have "1 < 1 / a" by simp
    then have n: "0 < \<lfloor>1 / a\<rfloor>" by simp
    let ?k = "real_of_int (bitlen \<lfloor>1 / a\<rfloor>)"
    from bitlen_powr [OF n] have lo: "2 powr (?k - 1) \<le> 1 / a" and hi: "1 / a \<le> 2 powr ?k"
      by linarith+
    have i: "2 powr (- ?k) = 1 / 2 powr ?k"
      by (simp add: powr_minus divide_inverse)
    have h: "2 powr (?k - 1) = 2 powr ?k / 2"
      by (simp add: powr_diff)
    from hi assms have "2 powr (- ?k) \<le> a"
      unfolding i by (simp add: field_simps)
    moreover from lo assms have "a \<le> 2 * 2 powr (- ?k)"
      unfolding i h by (simp add: field_simps)
    moreover have "scaleBy2 a (significandShift a) = a * 2 powr (52 - (- ?k))"
      using False by (simp add: scaleBy2_powr significandShift_def)
    then have "scaleBy2 a (significandShift a) = a * (c / 2 powr (- ?k))"
      by (simp only: powr_diff c)
    ultimately show ?thesis
      by (intro exI [of _ "2 powr (- ?k)"]) simp
  qed
  then obtain L where L: "0 < L" "L \<le> a" "a \<le> 2 * L"
    and m: "scaleBy2 a (significandShift a) = a * (c / L)"
    by blast
  from L(1) c(1) have q: "0 \<le> c / L" by simp
  from L(2) q have "L * (c / L) \<le> a * (c / L)" by (rule mult_right_mono)
  with L(1) have lower: "c \<le> a * (c / L)" by simp
  from L(3) q have "a * (c / L) \<le> 2 * L * (c / L)" by (rule mult_right_mono)
  with L(1) have upper: "a * (c / L) \<le> 2 * c" by simp
  from lower upper show ?thesis
    unfolding m c by simp
qed

text \<open>The rounding moves a number by at most half a unit in the last place.\<close>

lemma roundDouble_error: "abs (roundDouble x - x) \<le> abs x / 2 ^ 53"
proof (cases "x = 0")
  case True
  then show ?thesis by (simp add: roundDouble_def)
next
  case False
  then have a: "0 < abs x" by simp
  let ?s = "significandShift (abs x)"
  let ?m = "scaleBy2 (abs x) ?s"
  let ?r = "scaleBy2 (real_of_int (roundHalfEven ?m)) (- ?s)"
  have m: "?m = abs x * 2 powr ?s" by (rule scaleBy2_powr)
  have r: "?r = real_of_int (roundHalfEven ?m) * 2 powr (- real_of_int ?s)"
    by (simp add: scaleBy2_powr)
  have unscale: "abs x = ?m * 2 powr (- real_of_int ?s)"
    unfolding m by (simp add: mult.assoc flip: powr_add)
  have "?r - abs x = (real_of_int (roundHalfEven ?m) - ?m) * 2 powr (- real_of_int ?s)"
    unfolding r by (subst (2) unscale) (simp only: left_diff_distrib)
  then have "abs (?r - abs x) = abs (real_of_int (roundHalfEven ?m) - ?m) * 2 powr (- real_of_int ?s)"
    by (simp add: abs_mult)
  also have "\<dots> \<le> 1 / 2 * 2 powr (- real_of_int ?s)"
    by (rule mult_right_mono [OF roundHalfEven_nearest]) simp
  also have "\<dots> \<le> ?m / 2 ^ 53 * 2 powr (- real_of_int ?s)"
  proof (rule mult_right_mono)
    from significand_range [OF a] have "2 ^ 52 / 2 ^ 53 \<le> ?m / 2 ^ 53"
      by (simp add: divide_right_mono)
    then show "1 / 2 \<le> ?m / 2 ^ 53" by simp
  qed simp
  also have "\<dots> = abs x / 2 ^ 53"
    by (subst (3) unscale) simp
  finally have e: "abs (?r - abs x) \<le> abs x / 2 ^ 53" .
  show ?thesis
  proof (cases "x < 0")
    case True
    then have "roundDouble x - x = - (?r - abs x)"
      by (simp add: roundDouble_def Let_def)
    with e show ?thesis by (simp only: abs_minus)
  next
    case False
    with \<open>x \<noteq> 0\<close> have "roundDouble x - x = ?r - abs x"
      by (simp add: roundDouble_def Let_def)
    with e show ?thesis by simp
  qed
qed

text \<open>Values of the rounding, and the two models side by side.\<close>

lemmas round_defs = roundDouble_def significandShift_def scaleBy2_def roundHalfEven_def Let_def
  compute_bitlen

lemma roundDouble_values:
  "roundDouble 0.80 = 7205759403792794 / 2 ^ 53"
  "roundDouble 0.75 = 0.75"
  "roundDouble 0.90 = 8106479329266893 / 2 ^ 53"
  "roundDouble 0.60 = 5404319552844595 / 2 ^ 53"
  "roundDouble 0.54 = 4863887597560136 / 2 ^ 53"
  "roundDouble 1 = 1"
  "roundDouble (8106479329266893 / 2 ^ 53) = 8106479329266893 / 2 ^ 53"
  by (simp_all add: round_defs)

text \<open>A tie goes to the even significand, downwards or upwards.\<close>

lemma roundDouble_ties:
  "roundDouble (1 + 1 / 2 ^ 53) = 1"
  "roundDouble (1 + 3 / 2 ^ 53) = 1 + 1 / 2 ^ 51"
  "roundDouble (- (1 + 1 / 2 ^ 53)) = - 1"
  by (simp_all add: round_defs)

lemma roundDouble_literal: "roundDouble (roundDouble (9 / 10)) = roundDouble (9 / 10)"
  by (simp add: round_defs)

lemma exact_steps:
  "sameGameStepIn (\<lambda>x. x) = sameGameStep"
  "sameTeamStepIn (\<lambda>x. x) = sameTeamStep"
  "stackStepIn (\<lambda>x. x) = stackStep"
  by (rule ext, rule ext,
      simp add: sameGameStepIn_def sameGameStep_def sameTeamStepIn_def sameTeamStep_def
        stackStepIn_def stackStep_def Let_def)+

lemma exact_arithmetic:
  "calculateParlayProbabilityIn (\<lambda>x. x) ls = calculateParlayProbability ls"
  "calculateParlayPenaltiesIn (\<lambda>x. x) ls = calculateParlayPenalties ls"
  by (simp_all add: calculateParlayProbabilityIn_def calculateParlayProbability_def
      calculateParlayPenaltiesIn_def calculateParlayPenalties_def exact_steps)

lemma gameKeyOf_spec: "gameKeyOf leg = spec_gameKey leg"
  by (cases "Leg.gameId leg"; cases "Leg.gameDate leg")
    (simp_all add: gameKeyOf_def spec_gameKey_def truthy_def List.map_filter_simps)

lemma two_legs_counts:
  assumes "truthy (Leg.gameId l1)" "Leg.gameId l1 = Leg.gameId l2"
  shows "gameCountsOf [l1, l2] = [(the (Leg.gameId l1), 2)]"
  using assms by (simp add: gameCountsOf_def gameKeyOf_def nextCount_def)

lemma two_legs_teams:
  assumes "\<not> (truthy (Leg.team l1) \<and> Leg.team l1 = Leg.team l2)"
  shows "fold (stackStepIn fl) (snd (fold teamStep [l1, l2] ([], [])))
           (fold (sameTeamStepIn fl) (fst (fold teamStep [l1, l2] ([], []))) st) = st"
proof -
  have "\<not> (isQBPassingYards l \<and> isWRTEReceivingYards l)" for l
    by (auto simp: isQBPassingYards_def isWRTEReceivingYards_def)
  then show ?thesis
    using assms
    by (auto simp: teamStep_def sameTeamStepIn_def stackStepIn_def nextCount_def
        Let_def truthy_def split: option.splits)
qed

lemma two_legs_one_game_in:
  assumes "truthy (Leg.gameId l1)" "Leg.gameId l1 = Leg.gameId l2"
    and "\<not> (truthy (Leg.team l1) \<and> Leg.team l1 = Leg.team l2)"
  shows "calculateParlayProbabilityIn fl [l1, l2]
           = fl (fl (1 * Leg.smoothedProb l1) * Leg.smoothedProb l2)"
    and "fst (calculateParlayPenaltiesIn fl [l1, l2])
           = max (fl (calculateParlayProbabilityIn fl [l1, l2] * fl (1 * fl (fl 0.90 ^ 1)))) 0"
    and "\<exists>p. snd (calculateParlayPenaltiesIn fl [l1, l2]) = [p] \<and> type p = ''same_game''
            \<and> amount p = fl (1 - fl (fl 0.90 ^ 1))"
  unfolding calculateParlayPenaltiesIn_def Let_def two_legs_teams [OF assms(3)]
    two_legs_counts [OF assms(1,2)]
  by (simp_all add: calculateParlayProbabilityIn_def sameGameStepIn_def Let_def)

lemma double_scenario:
  assumes "Leg.smoothedProb l1 = roundDouble 0.80" "Leg.smoothedProb l2 = roundDouble 0.75"
    and "truthy (Leg.gameId l1)" "Leg.gameId l1 = Leg.gameId l2"
    and "\<not> (truthy (Leg.team l1) \<and> Leg.team l1 = Leg.team l2)"
  shows "calculateParlayProbabilityIn roundDouble [l1, l2] = 5404319552844596 / 2 ^ 53"
    and "fst (calculateParlayPenaltiesIn roundDouble [l1, l2]) = 4863887597560137 / 2 ^ 53"
proof -
  show b: "calculateParlayProbabilityIn roundDouble [l1, l2] = 5404319552844596 / 2 ^ 53"
    unfolding two_legs_one_game_in(1) [OF assms(3-5)] assms(1,2)
    by (simp add: round_defs)
  show "fst (calculateParlayPenaltiesIn roundDouble [l1, l2]) = 4863887597560137 / 2 ^ 53"
    unfolding two_legs_one_game_in(2) [OF assms(3-5)] b
    by (simp add: round_defs)
qed

text \<open>The same-game loop under any rounding.\<close>

lemma fold_sameGameStepIn:
  "fold (sameGameStepIn fl) entries st =
     (foldl (\<lambda>m e. fl (m * fl (fl 0.90 ^ (snd e - 1)))) (fst st)
        (filter (\<lambda>e. 1 < snd e) entries),
      snd st @ map (\<lambda>e. \<lparr>type = ''same_game'', amount = fl (1 - fl (fl 0.90 ^ (snd e - 1))),
                         reason = showNat (snd e) @ '' legs from same game ('' @ fst e @ '') - ''
                            @ toFixed1 (fl (fl (1 - fl (fl 0.90 ^ (snd e - 1))) * 100))
                            @ ''% penalty''\<rparr>)
                 (filter (\<lambda>e. 1 < snd e) entries))"
  by (induction entries arbitrary: st) (auto simp: sameGameStepIn_def Let_def)

lemma sameGame_loop_in:
  "fold (sameGameStepIn fl) (gameCountsOf ls) (1, []) =
     (sameGameMultiplierIn fl ls, map (sameGamePenaltyIn fl ls) (sharedGames ls))"
  by (simp add: fold_sameGameStepIn gameCountsOf_closed sameGameMultiplierIn_def sharedGames_def
      sameGamePenaltyIn_def filter_map comp_def Let_def foldl_map)

lemma sameTeam_loop_in:
  "filter (\<lambda>p. type p = ''same_game'') (snd (fold (sameTeamStepIn fl) xs st))
     = filter (\<lambda>p. type p = ''same_game'') (snd st)"
  by (induction xs arbitrary: st) (simp_all add: sameTeamStepIn_def Let_def)

lemma stack_loop_in:
  "filter (\<lambda>p. type p = ''same_game'') (snd (fold (stackStepIn fl) ys st))
     = filter (\<lambda>p. type p = ''same_game'') (snd st)"
  by (induction ys arbitrary: st) (simp_all add: stackStepIn_def Let_def)

lemma sameGame_entries_in:
  "filter (\<lambda>p. type p = ''same_game'') (snd (calculateParlayPenaltiesIn fl ls))
     = map (sameGamePenaltyIn fl ls) (sharedGames ls)"
  by (simp add: calculateParlayPenaltiesIn_def Let_def sameTeam_loop_in stack_loop_in sameGame_loop_in
      sameGamePenaltyIn_def filter_map comp_def)

lemma sameGame_exact:
  "sameGamePenaltyIn (\<lambda>x. x) ls k = sameGamePenalty ls k"
  "sameGameMultiplierIn (\<lambda>x. x) ls = sameGameFactor ls"
  by (simp_all add: sameGamePenaltyIn_def sameGamePenalty_def sameGameMultiplierIn_def
      sameGameFactor_def Let_def foldl_times)

subsection \<open>Facts about the activity filter\<close>

lemma fold_insert_if:
  "fold (\<lambda>x acc. if P x then insert (f x) acc else acc) xs S = S \<union> f ` {x \<in> set xs. P x}"
  by (induction xs arbitrary: S) auto

lemma getByeWeekTeams_iff:
  "t \<in> getByeWeekTeams gameLogs wk ssn \<longleftrightarrow>
     (\<exists>lg \<in> set gameLogs. truthy (GameLog.team lg) \<and> the (GameLog.team lg) = t)
     \<and> \<not> (\<exists>lg \<in> set gameLogs. week lg = Some wk \<and> season lg = Some ssn
              \<and> truthy (GameLog.team lg) \<and> the (GameLog.team lg) = t)"
  unfolding getByeWeekTeams_def Let_def fold_insert_if by (auto simp: image_iff)

lemma hostSort_arraySort: "hostSort arraySort"
  by (simp add: hostSort_def mset_arraySort)

lemma hostSort_mset: "hostSort srt \<Longrightarrow> mset (srt cmp xs) = mset xs"
  by (simp add: hostSort_def)

lemma hostSort_length:
  assumes "hostSort srt"
  shows "length (srt cmp xs) = length xs"
proof -
  have "size (mset (srt cmp xs)) = size (mset xs)"
    by (simp only: hostSort_mset [OF assms])
  then show ?thesis by simp
qed

lemma consistentOn_dateDesc:
  assumes "\<forall>lg \<in> A. tm (GameLog.gameDate lg) \<noteq> None"
  shows "consistentOn (dateDesc tm) A"
  unfolding consistentOn_def
proof (intro conjI ballI impI)
  fix a b assume "a \<in> A" "b \<in> A"
  with assms obtain ta tb where "tm (GameLog.gameDate a) = Some ta"
    "tm (GameLog.gameDate b) = Some tb"
    by blast
  then show "(dateDesc tm a b < 0) = (0 < dateDesc tm b a)"
    by (simp add: dateDesc_def)
next
  fix a b c assume "a \<in> A" "b \<in> A" "c \<in> A"
    and le: "dateDesc tm a b \<le> 0 \<and> dateDesc tm b c \<le> 0"
  with assms obtain ta tb tc where "tm (GameLog.gameDate a) = Some ta"
    "tm (GameLog.gameDate b) = Some tb" "tm (GameLog.gameDate c) = Some tc"
    by blast
  with le show "dateDesc tm a c \<le> 0"
    by (simp add: dateDesc_def)
qed

lemma hostSort_by_date:
  assumes "hostSort srt" and "\<forall>lg \<in> set ls. tm (GameLog.gameDate lg) \<noteq> None"
  shows "srt (dateDesc tm) ls = arraySort (dateDesc tm) ls"
  using assms(1) consistentOn_dateDesc [OF assms(2)] by (simp add: hostSort_def)

lemma hasSnapsInLastNGames_two:
  "hasSnapsInLastNGames srt tm gameLogs pid 2 \<longleftrightarrow>
     (\<exists>a b rest. srt (dateDesc tm) (playerLogsOf gameLogs pid) = a # b # rest
        \<and> hasSnaps a \<and> hasSnaps b)"
proof (cases "srt (dateDesc tm) (playerLogsOf gameLogs pid)")
  case Nil
  then show ?thesis
    by (simp add: hasSnapsInLastNGames_def playerLogsOf_def slice0_def Let_def)
next
  case (Cons a as)
  then show ?thesis
    by (cases as) (simp_all add: hasSnapsInLastNGames_def playerLogsOf_def slice0_def Let_def)
qed

lemma dateDesc_le:
  assumes "tm (GameLog.gameDate a) \<noteq> None" "tm (GameLog.gameDate b) \<noteq> None"
  shows "dateDesc tm a b \<le> 0 \<longleftrightarrow> notOlder tm a b"
  using assms by (auto simp: dateDesc_def notOlder_def)

lemma sorted_by_date:
  assumes "\<forall>lg \<in> set ls. tm (GameLog.gameDate lg) \<noteq> None"
  shows "sorted_wrt (notOlder tm) (arraySort (dateDesc tm) ls)"
proof -
  have s: "sorted_wrt (\<lambda>a b. dateDesc tm a b \<le> 0) (arraySort (dateDesc tm) ls)"
  proof (rule sorted_arraySort)
    fix a b assume "a \<in> set ls" "b \<in> set ls"
    with assms have "tm (GameLog.gameDate a) \<noteq> None" "tm (GameLog.gameDate b) \<noteq> None"
      by auto
    then show "dateDesc tm a b \<le> 0 \<or> dateDesc tm b a \<le> 0"
      by (auto simp: dateDesc_def)
  next
    fix a b c assume "a \<in> set ls" "b \<in> set ls" "c \<in> set ls"
      and le: "dateDesc tm a b \<le> 0" "dateDesc tm b c \<le> 0"
    with assms have "tm (GameLog.gameDate a) \<noteq> None" "tm (GameLog.gameDate b) \<noteq> None"
      "tm (GameLog.gameDate c) \<noteq> None"
      by auto
    with le show "dateDesc tm a c \<le> 0"
      by (auto simp: dateDesc_def)
  qed
  show ?thesis
    by (rule sorted_wrt_mono_rel [OF _ s]) (use assms in \<open>simp add: set_arraySort dateDesc_le\<close>)
qed

lemma isPlayerActive_fields:
  "hasRecentSnaps (isPlayerActive srt tm gameLogs pid wk ssn)
     = (playerLogsOf gameLogs pid \<noteq> [] \<and> hasSnapsInLastNGames srt tm gameLogs pid 2)"
  "isOnBye (isPlayerActive srt tm gameLogs pid wk ssn)
     = (case playerLogsOf gameLogs pid of
          [] \<Rightarrow> False
        | first # _ \<Rightarrow> truthy (GameLog.team first)
                        \<and> the (GameLog.team first) \<in> getByeWeekTeams gameLogs wk ssn)"
  "isActive (isPlayerActive srt tm gameLogs pid wk ssn)
     = (\<not> isOnBye (isPlayerActive srt tm gameLogs pid wk ssn)
        \<and> hasRecentSnaps (isPlayerActive srt tm gameLogs pid wk ssn))"
  by (simp_all add: isPlayerActive_def playerLogsOf_def Let_def split: list.splits)

lemma hasRecentSnaps_sorted:
  assumes "hostSort srt"
  shows "hasRecentSnaps (isPlayerActive srt tm gameLogs pid wk ssn) \<longleftrightarrow>
      (\<exists>a b rest. srt (dateDesc tm) (playerLogsOf gameLogs pid) = a # b # rest
         \<and> hasSnaps a \<and> hasSnaps b)"
proof -
  have "length (srt (dateDesc tm) (playerLogsOf gameLogs pid)) = 0"
    if "playerLogsOf gameLogs pid = []"
    using that by (simp add: hostSort_length [OF assms])
  then show ?thesis
    by (auto simp: isPlayerActive_fields(1) hasSnapsInLastNGames_two)
qed

lemma teamlessSeason_player:
  "playerLogsOf teamlessSeason ''p3''
     = (snapLog ''p3'' ''2024-09-08'' ''KC'' 1 (Some 30))\<lparr>GameLog.team := None\<rparr>
       # [snapLog ''p3'' ''2024-09-15'' ''KC'' 2 (Some 40)]"
  by (simp add: playerLogsOf_def teamlessSeason_def snapLog_def blankLog_def)

lemma teamlessSeason_bye:
  "\<not> isOnBye (isPlayerActive arraySort exampleTime teamlessSeason ''p3'' 3 2024)"
  by (simp add: isPlayerActive_fields(2) teamlessSeason_player snapLog_def blankLog_def
      truthy_def)

lemma snapSeason_sorted:
  "arraySort (dateDesc exampleTime) (playerLogsOf snapSeason ''p1'')
     = [snapLog ''p1'' ''2024-09-22'' ''KC'' 3 (Some 38),
        snapLog ''p1'' ''2024-09-15'' ''KC'' 2 (Some 40),
        snapLog ''p1'' ''2024-09-08'' ''KC'' 1 None]"
  by (simp add: arraySort_def playerLogsOf_def snapSeason_def snapLog_def blankLog_def
      dateDesc_def exampleTime_def)

lemma snapSeason_player:
  "playerLogsOf snapSeason ''p1''
     = snapLog ''p1'' ''2024-09-08'' ''KC'' 1 None
       # [snapLog ''p1'' ''2024-09-15'' ''KC'' 2 (Some 40),
          snapLog ''p1'' ''2024-09-22'' ''KC'' 3 (Some 38)]"
  by (simp add: playerLogsOf_def snapSeason_def snapLog_def blankLog_def)

lemma snapSeason_week3:
  "\<exists>lg \<in> set snapSeason. week lg = Some 3 \<and> season lg = Some 2024
      \<and> GameLog.team lg = GameLog.team (snapLog ''p1'' ''2024-09-08'' ''KC'' 1 None)"
  by (simp add: snapSeason_def snapLog_def blankLog_def)

lemma snapSeason_week4:
  "\<not> (\<exists>lg \<in> set snapSeason. week lg = Some 4 \<and> season lg = Some 2024
      \<and> GameLog.team lg = GameLog.team (snapLog ''p1'' ''2024-09-08'' ''KC'' 1 None))"
  by (simp add: snapSeason_def snapLog_def blankLog_def)

subsection \<open>Facts about the normalizer\<close>

lemma mappingStep_other:
  "k \<noteq> snd entry \<Longrightarrow> mappingStep entry obj k = obj k"
  by (simp add: mappingStep_def Let_def)

lemma mappingStep_keep:
  "\<not> isNullish (getProp obj k) \<Longrightarrow> getProp (mappingStep entry obj) k = getProp obj k"
  by (auto simp: mappingStep_def Let_def getProp_def hasProp_def isNullish_def)

lemma fold_mappingStep_other:
  "k \<notin> snd ` set ms \<Longrightarrow> fold mappingStep ms obj k = obj k"
  by (induction ms arbitrary: obj) (auto simp: mappingStep_other)

lemma fold_mappingStep_keep:
  "\<not> isNullish (getProp obj k) \<Longrightarrow> getProp (fold mappingStep ms obj) k = getProp obj k"
  by (induction ms arbitrary: obj) (auto simp: mappingStep_keep)

lemma find_holds: "find P xs = Some v \<Longrightarrow> P v"
  by (induction xs) (auto split: if_splits)

lemma fold_mappingStep_nullish:
  assumes "fst ` set ms \<inter> snd ` set ms = {}" and "isNullish (getProp obj f)"
  shows "case find (\<lambda>v. \<not> isNullish v)
                (map (\<lambda>e. getProp obj (fst e)) (filter (\<lambda>entry. snd entry = f) ms)) of
           Some v \<Rightarrow> getProp (fold mappingStep ms obj) f = v
         | None \<Rightarrow> isNullish (getProp (fold mappingStep ms obj) f)"
  using assms
proof (induction ms arbitrary: obj)
  case Nil
  then show ?case by simp
next
  case (Cons entry ms)
  define obj' where "obj' = mappingStep entry obj"
  have disj: "fst ` set ms \<inter> snd ` set ms = {}"
    using Cons.prems(1) by auto
  have alts: "getProp obj' a' = getProp obj a'" if "a' \<in> fst ` set ms" for a'
  proof -
    from that have "a' \<in> fst ` set (entry # ms)" by simp
    moreover have "snd entry \<in> snd ` set (entry # ms)" by simp
    ultimately have "a' \<noteq> snd entry" using Cons.prems(1) by blast
    then show ?thesis by (simp add: getProp_def mappingStep_other obj'_def)
  qed
  have same: "map (\<lambda>e. getProp obj' (fst e)) (filter (\<lambda>entry. snd entry = f) ms)
           = map (\<lambda>e. getProp obj (fst e)) (filter (\<lambda>entry. snd entry = f) ms)"
    using alts by (auto intro!: map_cong)
  have fold: "fold mappingStep (entry # ms) obj = fold mappingStep ms obj'"
    by (simp add: obj'_def)
  have ih: "isNullish (getProp obj' f) \<Longrightarrow>
     (case find (\<lambda>v. \<not> isNullish v)
                (map (\<lambda>e. getProp obj (fst e)) (filter (\<lambda>entry. snd entry = f) ms)) of
           Some v \<Rightarrow> getProp (fold mappingStep ms obj') f = v
         | None \<Rightarrow> isNullish (getProp (fold mappingStep ms obj') f))"
    using Cons.IH [OF disj, of obj'] by (simp only: same)
  show ?case
  proof (cases "snd entry = f")
    case False
    then have "getProp obj' f = getProp obj f"
      by (simp add: getProp_def mappingStep_other obj'_def)
    with Cons.prems(2) have "isNullish (getProp obj' f)" by simp
    from ih [OF this] show ?thesis
      unfolding fold using False by simp
  next
    case True
    show ?thesis
    proof (cases "isNullish (getProp obj (fst entry))")
      case na: True
      have "isNullish (getProp obj' f)"
        using na Cons.prems(2) True
        by (auto simp: obj'_def mappingStep_def Let_def getProp_def hasProp_def isNullish_def)
      from ih [OF this] show ?thesis
        unfolding fold using True na by simp
    next
      case nn: False
      then have "hasProp obj (fst entry)"
        by (auto simp: hasProp_def getProp_def isNullish_def split: option.splits)
      then have "getProp obj' f = getProp obj (fst entry)"
        using Cons.prems(2) True
        by (auto simp: obj'_def mappingStep_def Let_def getProp_def hasProp_def isNullish_def
            split: option.splits)
      with nn have "getProp (fold mappingStep ms obj') f = getProp obj (fst entry)"
        by (simp add: fold_mappingStep_keep)
      then show ?thesis
        unfolding fold using True nn by simp
    qed
  qed
qed

lemma fold_zeroStep_other: "k \<notin> set fs \<Longrightarrow> fold zeroStep fs obj k = obj k"
  by (induction fs arbitrary: obj) (auto simp: zeroStep_def)

lemma fold_zeroStep:
  "getProp (fold zeroStep fs obj) k =
     (if k \<in> set fs \<and> isNullish (getProp obj k) then JNumber 0 else getProp obj k)"
proof (induction fs arbitrary: obj)
  case Nil
  then show ?case by simp
next
  case (Cons f fs)
  show ?case
    by (simp add: Cons.IH) (auto simp: zeroStep_def getProp_def isNullish_def)
qed

lemma statMappings_disjoint: "fst ` set statMappings \<inter> snd ` set statMappings = {}"
  by (simp add: statMappings_def)

lemma normalizeGameLog_field:
  assumes "f \<in> set expectedStatFields"
  shows "getProp (normalizeGameLog g) f = spec_normalized g f"
proof (cases "isNullish (getProp g f)")
  case False
  then have "getProp (fold mappingStep statMappings g) f = getProp g f"
    by (rule fold_mappingStep_keep)
  with False show ?thesis
    by (simp add: normalizeGameLog_def fold_zeroStep spec_normalized_def)
next
  case True
  from fold_mappingStep_nullish [OF statMappings_disjoint True]
  have c: "case find (\<lambda>v. \<not> isNullish v) (map (getProp g) (alternatesOf f)) of
           Some v \<Rightarrow> getProp (fold mappingStep statMappings g) f = v
         | None \<Rightarrow> isNullish (getProp (fold mappingStep statMappings g) f)"
    by (simp only: alternatesOf_def map_map comp_def)
  show ?thesis
  proof (cases "find (\<lambda>v. \<not> isNullish v) (map (getProp g) (alternatesOf f))")
    case None
    with c True assms show ?thesis
      by (simp add: normalizeGameLog_def fold_zeroStep spec_normalized_def)
  next
    case (Some v)
    then have "\<not> isNullish v"
      by (rule find_holds)
    with c Some True show ?thesis
      by (simp add: normalizeGameLog_def fold_zeroStep spec_normalized_def)
  qed
qed

lemma spec_normalized_defined: "\<not> isNullish (spec_normalized g f)"
proof (cases "find (\<lambda>v. \<not> isNullish v) (getProp g f # map (getProp g) (alternatesOf f))")
  case None
  then show ?thesis by (simp add: spec_normalized_def isNullish_def)
next
  case (Some v)
  then have "\<not> isNullish v" by (rule find_holds)
  with Some show ?thesis by (simp add: spec_normalized_def)
qed

lemma normalizeGameLog_other:
  assumes "k \<notin> set expectedStatFields"
  shows "normalizeGameLog g k = g k"
proof -
  have "snd ` set statMappings \<subseteq> set expectedStatFields"
    by (simp add: statMappings_def expectedStatFields_def)
  with assms have "k \<notin> snd ` set statMappings" by blast
  with assms show ?thesis
    by (simp add: normalizeGameLog_def fold_zeroStep_other fold_mappingStep_other)
qed

lemma getTopParlays_negative:
  "n < 0 \<Longrightarrow> getTopParlays candidateLegs (Some n) options
     = take (nat (int (length (generateParlays candidateLegs options)) + n))
         (generateParlays candidateLegs options)"
  by (simp add: getTopParlays_def slice0_def)

section \<open>Claims\<close>

text \<open>
  C1. \<open>calculateProbability\<close> is private to the engine; its one caller is \<open>generateLegs\<close>,
  with the shrinkage parameters 4 and 2 and only for a statistic that
  \<open>hasSufficientStatData\<close> has found in at least four of the selected logs. On every such
  call, and indeed whenever at least one log carries a value, the reported sample size is
  \<open>n\<close>, the raw probability is exactly \<open>k / n\<close> and the smoothed probability is exactly
  \<open>(k + 4) / (n + 6)\<close>, where \<open>n\<close> counts the logs with a value for the statistic and \<open>k\<close>
  those whose value reaches the threshold. Every leg that \<open>generateLegs\<close> returns carries
  these three numbers of its statistic and threshold on the selected logs.
\<close>

theorem C1_probability_formula:
  "(hasSufficientStatData ls st 4 \<longleftrightarrow> 4 \<le> spec_n st ls)
   \<and> (0 < spec_n st ls \<longrightarrow>
        ProbabilityResult.sampleSize
            (calculateProbability ls st thr DEFAULT_BETA_A DEFAULT_BETA_B)
          = spec_n st ls
        \<and> ProbabilityResult.rawProb (calculateProbability ls st thr DEFAULT_BETA_A DEFAULT_BETA_B)
          = real (spec_k st thr ls) / real (spec_n st ls)
        \<and> ProbabilityResult.smoothedProb
            (calculateProbability ls st thr DEFAULT_BETA_A DEFAULT_BETA_B)
          = (real (spec_k st thr ls) + 4) / (real (spec_n st ls) + 6))
   \<and> (generateLegs tm pid pname gameLogs lastN minP minS minT = Inr out \<and> leg \<in> set out \<longrightarrow>
        4 \<le> spec_n (statType leg) (selectLogs tm gameLogs lastN)
        \<and> Leg.sampleSize leg = spec_n (statType leg) (selectLogs tm gameLogs lastN)
        \<and> Leg.rawProb leg
            = real (spec_k (statType leg) (threshold leg) (selectLogs tm gameLogs lastN))
              / real (spec_n (statType leg) (selectLogs tm gameLogs lastN))
        \<and> Leg.smoothedProb leg
            = (real (spec_k (statType leg) (threshold leg) (selectLogs tm gameLogs lastN)) + 4)
              / (real (spec_n (statType leg) (selectLogs tm gameLogs lastN)) + 6))"
proof (intro conjI impI)
  show "hasSufficientStatData ls st 4 \<longleftrightarrow> 4 \<le> spec_n st ls"
    by (cases ls) (simp_all add: hasSufficientStatData_def length_statValues spec_n_def)
next
  assume pos: "0 < spec_n st ls"
  show "ProbabilityResult.sampleSize (calculateProbability ls st thr DEFAULT_BETA_A DEFAULT_BETA_B)
     = spec_n st ls"
    by (simp add: calculateProbability_pos [OF pos])
  show "ProbabilityResult.rawProb (calculateProbability ls st thr DEFAULT_BETA_A DEFAULT_BETA_B)
          = real (spec_k st thr ls) / real (spec_n st ls)"
    by (simp add: calculateProbability_pos [OF pos])
  show "ProbabilityResult.smoothedProb
            (calculateProbability ls st thr DEFAULT_BETA_A DEFAULT_BETA_B)
          = (real (spec_k st thr ls) + 4) / (real (spec_n st ls) + 6)"
    by (simp add: calculateProbability_pos [OF pos] DEFAULT_BETA_A_def DEFAULT_BETA_B_def
        add.assoc)
next
  assume h: "generateLegs tm pid pname gameLogs lastN minP minS minT = Inr out \<and> leg \<in> set out"
  then have g: "generateLegs tm pid pname gameLogs lastN minP minS minT = Inr out"
    and m: "leg \<in> set out"
    by simp_all
  note p = generateLegs_probabilities [OF g m]
  from p show "4 \<le> spec_n (statType leg) (selectLogs tm gameLogs lastN)" by simp
  from p show "Leg.sampleSize leg = spec_n (statType leg) (selectLogs tm gameLogs lastN)"
    by simp
  from p show "Leg.rawProb leg
            = real (spec_k (statType leg) (threshold leg) (selectLogs tm gameLogs lastN))
              / real (spec_n (statType leg) (selectLogs tm gameLogs lastN))" by simp
  from p show "Leg.smoothedProb leg
            = (real (spec_k (statType leg) (threshold leg) (selectLogs tm gameLogs lastN)) + 4)
              / (real (spec_n (statType leg) (selectLogs tm gameLogs lastN)) + 6)" by simp
qed

text \<open>
  Witness for C1: six games with receiving yards 80, 60, 55, 40, 30, 20 and threshold 40
  pass the guard and give \<open>n = 6\<close>, \<open>k = 4\<close>, raw probability 4/6 and smoothed probability
  8/12; and the one leg of the example receiver carries the sample size and the smoothed
  probability of its selected logs.
\<close>

theorem C1_probability_formula_witness:
  "hasSufficientStatData (map recLog [80, 60, 55, 40, 30, 20]) ST_rec_yards 4
   \<and> 0 < spec_n ST_rec_yards (map recLog [80, 60, 55, 40, 30, 20])
   \<and> ProbabilityResult.sampleSize
       (calculateProbability (map recLog [80, 60, 55, 40, 30, 20]) ST_rec_yards 40
          DEFAULT_BETA_A DEFAULT_BETA_B) = 6
   \<and> ProbabilityResult.rawProb
       (calculateProbability (map recLog [80, 60, 55, 40, 30, 20]) ST_rec_yards 40
          DEFAULT_BETA_A DEFAULT_BETA_B) = 4 / 6
   \<and> ProbabilityResult.smoothedProb
       (calculateProbability (map recLog [80, 60, 55, 40, 30, 20]) ST_rec_yards 40
          DEFAULT_BETA_A DEFAULT_BETA_B) = 8 / 12
   \<and> (\<exists>leg. generateLegs exampleTime ''p1'' None wrSeason None DEFAULT_MIN_PROBABILITY
                DEFAULT_MIN_SAMPLE_SIZE DEFAULT_MIN_TOUCHES_PER_GAME = Inr [leg]
          \<and> Leg.sampleSize leg = spec_n (statType leg) (selectLogs exampleTime wrSeason None)
          \<and> Leg.smoothedProb leg
              = (real (spec_k (statType leg) (threshold leg)
                         (selectLogs exampleTime wrSeason None)) + 4)
                / (real (spec_n (statType leg) (selectLogs exampleTime wrSeason None)) + 6))"
proof -
  from wrSeason_legs obtain leg where
    l: "generateLegs exampleTime ''p1'' None wrSeason None DEFAULT_MIN_PROBABILITY
          DEFAULT_MIN_SAMPLE_SIZE DEFAULT_MIN_TOUCHES_PER_GAME = Inr [leg]"
    by blast
  note c = C1_probability_formula [of "map recLog [80, 60, 55, 40, 30, 20]" ST_rec_yards 40
      exampleTime "''p1''" None wrSeason None DEFAULT_MIN_PROBABILITY DEFAULT_MIN_SAMPLE_SIZE
      DEFAULT_MIN_TOUCHES_PER_GAME "[leg]" leg]
  have n: "spec_n ST_rec_yards (map recLog [80, 60, 55, 40, 30, 20]) = 6"
    and k: "spec_k ST_rec_yards 40 (map recLog [80, 60, 55, 40, 30, 20]) = 4"
    by (simp_all add: spec_n_def spec_k_def recLog_def blankLog_def)
  from c l have "Leg.sampleSize leg = spec_n (statType leg) (selectLogs exampleTime wrSeason None)
          \<and> Leg.smoothedProb leg
              = (real (spec_k (statType leg) (threshold leg)
                         (selectLogs exampleTime wrSeason None)) + 4)
                / (real (spec_n (statType leg) (selectLogs exampleTime wrSeason None)) + 6)"
    by simp
  with l have e: "\<exists>leg. generateLegs exampleTime ''p1'' None wrSeason None DEFAULT_MIN_PROBABILITY
                DEFAULT_MIN_SAMPLE_SIZE DEFAULT_MIN_TOUCHES_PER_GAME = Inr [leg]
          \<and> Leg.sampleSize leg = spec_n (statType leg) (selectLogs exampleTime wrSeason None)
          \<and> Leg.smoothedProb leg
              = (real (spec_k (statType leg) (threshold leg)
                         (selectLogs exampleTime wrSeason None)) + 4)
                / (real (spec_n (statType leg) (selectLogs exampleTime wrSeason None)) + 6)"
    by blast
  from c n k e show ?thesis by simp
qed

text \<open>
  C3. \<open>generateLegs\<close> always returns, and its legs are pairwise different in
  (player, statistic): every leg carries the requested player, no statistic occurs twice,
  and the threshold of each leg is the lowest one of its statistic's row whose sample size
  reaches \<open>minSampleSize\<close> and whose smoothed probability reaches \<open>minProbability\<close> on the
  selected logs. The rows list their thresholds in ascending order.
\<close>

theorem C3_one_leg_per_statistic:
  "\<exists>lgs. generateLegs tm pid pname gameLogs lastN minP minS minT = Inr lgs
     \<and> distinct (map (\<lambda>l. (Leg.playerId l, statType l)) lgs)
     \<and> (\<forall>l \<in> set lgs.
           lowestQualifying (statType l) (threshold l) (selectLogs tm gameLogs lastN) minP minS)
     \<and> (\<forall>row \<in> set STAT_THRESHOLDS. sorted_wrt (<) (snd row))"
proof -
  from generateLegs_result [of tm pid pname gameLogs lastN minP minS minT] obtain lgs where
    r: "generateLegs tm pid pname gameLogs lastN minP minS minT = Inr lgs"
       "distinct (map statType lgs)"
       "\<forall>l \<in> set lgs. Leg.playerId l = pid
           \<and> lowestQualifying (statType l) (threshold l) (selectLogs tm gameLogs lastN) minP minS"
    by blast
  have "map statType lgs = map snd (map (\<lambda>l. (Leg.playerId l, statType l)) lgs)"
    by simp
  with r(2) have "distinct (map (\<lambda>l. (Leg.playerId l, statType l)) lgs)"
    by (metis distinct_map)
  moreover have "\<forall>row \<in> set STAT_THRESHOLDS. sorted_wrt (<) (snd row)"
    using STAT_THRESHOLDS_ascending by auto
  ultimately show ?thesis using r(1,3) by blast
qed

text \<open>
  Witness for C3: the receiver with six games of 26 to 80 receiving yards gets exactly one
  leg, so the quantifier over the legs is not empty.
\<close>

theorem C3_one_leg_per_statistic_witness:
  "\<exists>lgs. generateLegs exampleTime ''p1'' None wrSeason None DEFAULT_MIN_PROBABILITY
            DEFAULT_MIN_SAMPLE_SIZE DEFAULT_MIN_TOUCHES_PER_GAME = Inr lgs
     \<and> lgs \<noteq> []
     \<and> distinct (map (\<lambda>l. (Leg.playerId l, statType l)) lgs)
     \<and> (\<forall>l \<in> set lgs.
           lowestQualifying (statType l) (threshold l) (selectLogs exampleTime wrSeason None)
             DEFAULT_MIN_PROBABILITY DEFAULT_MIN_SAMPLE_SIZE)"
  using C3_one_leg_per_statistic [of exampleTime "''p1''" None wrSeason None
      DEFAULT_MIN_PROBABILITY DEFAULT_MIN_SAMPLE_SIZE DEFAULT_MIN_TOUCHES_PER_GAME]
    wrSeason_legs
  by auto




text \<open>
  C4. Every parlay that \<open>generateParlays\<close> returns has pairwise distinct player identifiers,
  and the number of its legs is the requested \<open>legCount\<close> (3 when absent) clamped to the
  range from 2 to 8; a requested count inside the range is met exactly. The function has
  no error result: a count outside the range is clamped.
\<close>

theorem C4_distinct_players_exact_count:
  "\<forall>p \<in> set (generateParlays candidateLegs options).
     distinct (map Leg.playerId (legs p))
     \<and> real (length (legs p)) = max 2 (min 8 (case legCount options of None \<Rightarrow> 3 | Some c \<Rightarrow> c))
     \<and> (\<forall>c. legCount options = Some c \<and> 2 \<le> c \<and> c \<le> 8 \<longrightarrow> real (length (legs p)) = c)"
proof
  fix p assume "p \<in> set (generateParlays candidateLegs options)"
  from generateParlays_valid [OF this]
  have d: "distinct (map Leg.playerId (legs p))"
    and l: "real (length (legs p)) = resolvedLegCount options"
    by (simp_all add: isValidParlay_D)
  from l have "real (length (legs p))
      = max 2 (min 8 (case legCount options of None \<Rightarrow> 3 | Some c \<Rightarrow> c))"
    by (simp add: resolvedLegCount_def)
  moreover from this
  have "\<forall>c. legCount options = Some c \<and> 2 \<le> c \<and> c \<le> 8 \<longrightarrow> real (length (legs p)) = c"
    by auto
  ultimately show "distinct (map Leg.playerId (legs p))
     \<and> real (length (legs p)) = max 2 (min 8 (case legCount options of None \<Rightarrow> 3 | Some c \<Rightarrow> c))
     \<and> (\<forall>c. legCount options = Some c \<and> 2 \<le> c \<and> c \<le> 8 \<longrightarrow> real (length (legs p)) = c)"
    using d by blast
qed


text \<open>
  Witness for C4: with three candidate legs of three players, a requested count of 2 gives
  three parlays of two legs, and so does the out-of-range count 1.
\<close>

theorem C4_distinct_players_exact_count_witness:
  "generateParlays exampleLegs (exampleOptions (Some 2)) \<noteq> []
   \<and> list_all (\<lambda>p. distinct (map Leg.playerId (legs p)) \<and> length (legs p) = 2)
       (generateParlays exampleLegs (exampleOptions (Some 2)))
   \<and> generateParlays exampleLegs (exampleOptions (Some 1)) \<noteq> []
   \<and> list_all (\<lambda>p. distinct (map Leg.playerId (legs p)) \<and> length (legs p) = 2)
       (generateParlays exampleLegs (exampleOptions (Some 1)))"
proof -
  have a: "generateParlays exampleLegs (exampleOptions (Some 2)) \<noteq> []"
    using length_generateParlays_example by auto
  have b: "generateParlays exampleLegs (exampleOptions (Some 1)) \<noteq> []"
    using length_generateParlays_clamped by auto
  show ?thesis
    using a b C4_distinct_players_exact_count [of exampleLegs "exampleOptions (Some 2)"]
      C4_distinct_players_exact_count [of exampleLegs "exampleOptions (Some 1)"]
    by (simp add: exampleOptions_def list_all_iff)
qed

text \<open>
  C5. When neither \<open>singleGame\<close> nor \<open>allowSameGame\<close> is set to true, the game keys of the
  legs of every returned parlay are pairwise different, the key being the \<open>gameId\<close>, else the
  \<open>gameDate\<close>, else \<open>unknown\<close>; in particular no two of its legs share a game identifier
  that is present.
\<close>

theorem C5_no_shared_game:
  assumes "singleGame options = None \<or> singleGame options = Some False"
    and "allowSameGame options = None \<or> allowSameGame options = Some False"
    and "p \<in> set (generateParlays candidateLegs options)"
  shows "distinct (map gameKeyOf (legs p))
         \<and> (\<forall>i j. i < j \<and> j < length (legs p) \<and> truthy (Leg.gameId (legs p ! i))
               \<longrightarrow> Leg.gameId (legs p ! i) \<noteq> Leg.gameId (legs p ! j))"
proof -
  from assms(1,2) have "\<not> resolvedAllowSameGame options"
    by (auto simp: resolvedAllowSameGame_def)
  with generateParlays_valid [OF assms(3)] have d: "distinct (map gameKeyOf (legs p))"
    by (simp add: isValidParlay_D)
  have "Leg.gameId (legs p ! i) \<noteq> Leg.gameId (legs p ! j)"
    if "i < j" "j < length (legs p)" "truthy (Leg.gameId (legs p ! i))" for i j
  proof
    assume e: "Leg.gameId (legs p ! i) = Leg.gameId (legs p ! j)"
    with that(3) have "gameKeyOf (legs p ! i) = gameKeyOf (legs p ! j)"
      by (simp add: gameKeyOf_def)
    then have "map gameKeyOf (legs p) ! i = map gameKeyOf (legs p) ! j"
      using that by simp
    with d that show False
      by (simp add: distinct_conv_nth)
  qed
  with d show ?thesis by blast
qed


text \<open>Witness for C5: the three example legs with default options and \<open>legCount\<close> 2.\<close>

theorem C5_no_shared_game_witness:
  "generateParlays exampleLegs (exampleOptions (Some 2)) \<noteq> []
   \<and> singleGame (exampleOptions (Some 2)) = None
   \<and> allowSameGame (exampleOptions (Some 2)) = None
   \<and> list_all (\<lambda>p. distinct (map gameKeyOf (legs p)))
       (generateParlays exampleLegs (exampleOptions (Some 2)))"
proof -
  have a: "generateParlays exampleLegs (exampleOptions (Some 2)) \<noteq> []"
    using length_generateParlays_example by auto
  have o: "singleGame (exampleOptions (Some 2)) = None"
    "allowSameGame (exampleOptions (Some 2)) = None"
    by (simp_all add: exampleOptions_def)
  have "distinct (map gameKeyOf (legs p))"
    if "p \<in> set (generateParlays exampleLegs (exampleOptions (Some 2)))" for p
    using C5_no_shared_game [of "exampleOptions (Some 2)" p exampleLegs] that o
    by simp
  with a o show ?thesis by (simp add: list_all_iff)
qed

text \<open>
  C7 (as stated, refuted). \<open>topN\<close> reaches \<open>getTopParlays\<close> unvalidated, and \<open>slice(0, topN)\<close>
  counts a negative \<open>topN\<close> from the end of the list: for the three example legs and two
  legs a parlay there are three parlays, and \<open>topN = -1\<close> returns the first two of them,
  which is not "the first \<open>topN\<close>" of anything.
\<close>

theorem C7_counterexample:
  "length (generateParlays exampleLegs (exampleOptions (Some 2))) = 3
   \<and> length (getTopParlays exampleLegs (Some (- 1)) (exampleOptions (Some 2))) = 2
   \<and> getTopParlays exampleLegs (Some (- 1)) (exampleOptions (Some 2))
       \<noteq> take (nat (- 1)) (generateParlays exampleLegs (exampleOptions (Some 2)))"
proof -
  have l: "length (generateParlays exampleLegs (exampleOptions (Some 2))) = 3"
    by (rule length_generateParlays_example)
  have t: "getTopParlays exampleLegs (Some (- 1)) (exampleOptions (Some 2))
     = take 2 (generateParlays exampleLegs (exampleOptions (Some 2)))"
    by (simp add: getTopParlays_def slice0_def l)
  have n: "length (getTopParlays exampleLegs (Some (- 1)) (exampleOptions (Some 2))) = 2"
    by (simp add: t l)
  from n have "getTopParlays exampleLegs (Some (- 1)) (exampleOptions (Some 2)) \<noteq> []"
    by auto
  with l n show ?thesis by simp
qed

text \<open>
  C7 (amended). For \<open>topN \<ge> 0\<close>, \<open>getTopParlays\<close> returns the first \<open>topN\<close> elements of the
  output of \<open>generateParlays\<close> (the first 20 when \<open>topN\<close> is absent); for \<open>topN < 0\<close> it
  returns that output without its last \<open>|topN|\<close> elements. Every parlay of the output
  carries, as \<open>estimatedProbability\<close> and \<open>estProbability\<close>, the adjusted probability that
  \<open>calculateParlayPenalties\<close> computes for its legs, and the output is ordered by that
  adjusted probability descending, ties broken by the unweighted mean of the legs' smoothed
  probabilities descending; so with \<open>topN = 1\<close> and a non-empty output the result is the
  single parlay of highest adjusted probability. When the clamped leg count is a natural
  number \<open>k\<close>, the output holds one parlay for each valid combination of \<open>k\<close> of the filtered
  legs, and no other.
\<close>

theorem C7_top_parlays:
  "(0 \<le> n \<longrightarrow> getTopParlays candidateLegs (Some n) options
                 = take (nat n) (generateParlays candidateLegs options))
   \<and> (n < 0 \<longrightarrow> getTopParlays candidateLegs (Some n) options
                 = take (length (generateParlays candidateLegs options) - nat (- n))
                     (generateParlays candidateLegs options))
   \<and> getTopParlays candidateLegs None options = take 20 (generateParlays candidateLegs options)
   \<and> (\<forall>p \<in> set (generateParlays candidateLegs options).
         estimatedProbability p = fst (calculateParlayPenalties (legs p))
         \<and> estProbability p = Some (fst (calculateParlayPenalties (legs p))))
   \<and> sorted_wrt orderedByAdjusted (generateParlays candidateLegs options)
   \<and> (generateParlays candidateLegs options \<noteq> [] \<longrightarrow>
        getTopParlays candidateLegs (Some 1) options = [hd (generateParlays candidateLegs options)]
        \<and> (\<forall>q \<in> set (generateParlays candidateLegs options).
              fst (calculateParlayPenalties (legs q))
                \<le> fst (calculateParlayPenalties
                          (legs (hd (generateParlays candidateLegs options))))))
   \<and> (\<forall>k. resolvedLegCount options = real k \<longrightarrow>
        mset (map legs (generateParlays candidateLegs options)) =
          mset (filter (\<lambda>c. isValidParlay c (real k) (resolvedAllowSameGame options)
                            (resolvedAllowStack options))
                  (combinationsOf k (filteredLegsOf candidateLegs options))))"
proof (intro conjI impI allI ballI)
  assume "0 \<le> n"
  then show "getTopParlays candidateLegs (Some n) options
                 = take (nat n) (generateParlays candidateLegs options)"
    by (simp add: getTopParlays_def slice0_def)
next
  assume neg: "n < 0"
  then have "nat (int (length (generateParlays candidateLegs options)) + n)
      = length (generateParlays candidateLegs options) - nat (- n)"
    by linarith
  with neg show "getTopParlays candidateLegs (Some n) options
                 = take (length (generateParlays candidateLegs options) - nat (- n))
                     (generateParlays candidateLegs options)"
    by (simp add: getTopParlays_def slice0_def)
next
  show "getTopParlays candidateLegs None options = take 20 (generateParlays candidateLegs options)"
    by (simp add: getTopParlays_def slice0_def)
next
  fix p assume "p \<in> set (generateParlays candidateLegs options)"
  then show "estimatedProbability p = fst (calculateParlayPenalties (legs p))"
    and "estProbability p = Some (fst (calculateParlayPenalties (legs p)))"
    by (simp_all add: generateParlays_adjusted)
next
  show "sorted_wrt orderedByAdjusted (generateParlays candidateLegs options)"
    by (rule generateParlays_ordered)
next
  assume ne: "generateParlays candidateLegs options \<noteq> []"
  then obtain p rest where pr: "generateParlays candidateLegs options = p # rest"
    by (cases "generateParlays candidateLegs options") auto
  then show "getTopParlays candidateLegs (Some 1) options
               = [hd (generateParlays candidateLegs options)]"
    by (simp add: getTopParlays_def slice0_def)
  fix q assume q: "q \<in> set (generateParlays candidateLegs options)"
  from generateParlays_ordered [of candidateLegs options] pr
  have "\<forall>q \<in> set rest. orderedByAdjusted p q" by simp
  then have "\<forall>q \<in> set (p # rest). fst (calculateParlayPenalties (legs q))
      \<le> fst (calculateParlayPenalties (legs p))"
    by (auto simp: orderedByAdjusted_def)
  with q show "fst (calculateParlayPenalties (legs q))
                \<le> fst (calculateParlayPenalties
                          (legs (hd (generateParlays candidateLegs options))))"
    unfolding pr by auto
next
  fix k assume "resolvedLegCount options = real k"
  then have "mset (generateParlays candidateLegs options) =
          mset (map makeParlay
            (filter (\<lambda>c. isValidParlay c (real k) (resolvedAllowSameGame options)
                            (resolvedAllowStack options))
               (combinationsOf k (filteredLegsOf candidateLegs options))))"
    by (rule generateParlays_natural)
  then have "mset (map legs (generateParlays candidateLegs options)) =
          mset (map legs (map makeParlay
            (filter (\<lambda>c. isValidParlay c (real k) (resolvedAllowSameGame options)
                            (resolvedAllowStack options))
               (combinationsOf k (filteredLegsOf candidateLegs options)))))"
    by (metis mset_map)
  then show "mset (map legs (generateParlays candidateLegs options)) =
          mset (filter (\<lambda>c. isValidParlay c (real k) (resolvedAllowSameGame options)
                            (resolvedAllowStack options))
                  (combinationsOf k (filteredLegsOf candidateLegs options)))"
    by (simp add: comp_def legs_makeParlay)
qed

text \<open>
  Witness for C7: the three example legs, two legs a parlay, \<open>topN = 1\<close> and \<open>topN = -1\<close>.
  No two of the legs share a game or a team, so the three parlays come out in the order of
  the products of their legs' probabilities.
\<close>

theorem C7_top_parlays_witness:
  "(0::int) \<le> 1 \<and> (- 1::int) < 0
   \<and> generateParlays exampleLegs (exampleOptions (Some 2)) \<noteq> []
   \<and> getTopParlays exampleLegs (Some 1) (exampleOptions (Some 2))
       = [hd (generateParlays exampleLegs (exampleOptions (Some 2)))]
   \<and> getTopParlays exampleLegs (Some (- 1)) (exampleOptions (Some 2))
       = take 2 (generateParlays exampleLegs (exampleOptions (Some 2)))
   \<and> list_all (\<lambda>q. fst (calculateParlayPenalties (legs q))
                   \<le> fst (calculateParlayPenalties
                         (legs (hd (generateParlays exampleLegs (exampleOptions (Some 2)))))))
       (generateParlays exampleLegs (exampleOptions (Some 2)))
   \<and> list_all (\<lambda>p. estimatedProbability p = fst (calculateParlayPenalties (legs p)))
       (generateParlays exampleLegs (exampleOptions (Some 2)))
   \<and> resolvedLegCount (exampleOptions (Some 2)) = real 2
   \<and> map (\<lambda>p. (map Leg.playerId (legs p), estimatedProbability p))
         (generateParlays exampleLegs (exampleOptions (Some 2)))
       = [([''a'', ''b''], 0.90 * 0.85), ([''a'', ''c''], 0.90 * 0.80),
          ([''b'', ''c''], 0.85 * 0.80)]"
proof -
  have l: "length (generateParlays exampleLegs (exampleOptions (Some 2))) = 3"
    by (rule length_generateParlays_example)
  then have a: "generateParlays exampleLegs (exampleOptions (Some 2)) \<noteq> []"
    by auto
  have b: "resolvedLegCount (exampleOptions (Some 2)) = real 2"
    by (simp add: resolvedLegCount_def exampleOptions_def)
  note c1 = C7_top_parlays [of 1 exampleLegs "exampleOptions (Some 2)"]
  note c2 = C7_top_parlays [of "- 1" exampleLegs "exampleOptions (Some 2)"]
  from c1 a
  have h: "getTopParlays exampleLegs (Some 1) (exampleOptions (Some 2))
       = [hd (generateParlays exampleLegs (exampleOptions (Some 2)))]
   \<and> (\<forall>q \<in> set (generateParlays exampleLegs (exampleOptions (Some 2))).
              fst (calculateParlayPenalties (legs q))
                \<le> fst (calculateParlayPenalties
                      (legs (hd (generateParlays exampleLegs (exampleOptions (Some 2)))))))"
    by blast
  from c1 have e: "\<forall>p \<in> set (generateParlays exampleLegs (exampleOptions (Some 2))).
         estimatedProbability p = fst (calculateParlayPenalties (legs p))"
    by blast
  from c2 l have t: "getTopParlays exampleLegs (Some (- 1)) (exampleOptions (Some 2))
       = take 2 (generateParlays exampleLegs (exampleOptions (Some 2)))"
    by simp
  from a b h e t show ?thesis
    by (simp add: list_all_iff estimated_generateParlays_example)
qed

text \<open>
  C2 (as stated, refuted). The general part holds; the decimal values of the scenario do
  not. The program multiplies doubles: the double nearest to 0.80 times 0.75 lies exactly
  half way between two doubles and is rounded to the upper one, so the base probability is
  one unit in the last place above the double nearest to 0.60 (it prints as
  0.6000000000000001), and the adjusted probability is one unit in the last place above the
  double nearest to 0.54 (it prints as 0.5400000000000001).
\<close>

theorem C2_counterexample:
  "Leg.smoothedProb (sameGameDoubles ! 0) = roundDouble 0.80
   \<and> Leg.smoothedProb (sameGameDoubles ! 1) = roundDouble 0.75
   \<and> truthy (Leg.gameId (sameGameDoubles ! 0))
   \<and> Leg.gameId (sameGameDoubles ! 0) = Leg.gameId (sameGameDoubles ! 1)
   \<and> Leg.team (sameGameDoubles ! 0) \<noteq> Leg.team (sameGameDoubles ! 1)
   \<and> calculateParlayProbabilityIn roundDouble sameGameDoubles \<noteq> roundDouble 0.60
   \<and> calculateParlayProbabilityIn roundDouble sameGameDoubles \<noteq> 0.60
   \<and> fst (calculateParlayPenaltiesIn roundDouble sameGameDoubles) \<noteq> roundDouble 0.54
   \<and> fst (calculateParlayPenaltiesIn roundDouble sameGameDoubles) \<noteq> 0.54"
proof -
  have l: "sameGameDoubles = [sameGameDoubles ! 0, sameGameDoubles ! 1]"
    by (simp add: sameGameDoubles_def)
  have h: "Leg.smoothedProb (sameGameDoubles ! 0) = roundDouble 0.80"
    "Leg.smoothedProb (sameGameDoubles ! 1) = roundDouble 0.75"
    "truthy (Leg.gameId (sameGameDoubles ! 0))"
    "Leg.gameId (sameGameDoubles ! 0) = Leg.gameId (sameGameDoubles ! 1)"
    "\<not> (truthy (Leg.team (sameGameDoubles ! 0))
        \<and> Leg.team (sameGameDoubles ! 0) = Leg.team (sameGameDoubles ! 1))"
    by (simp_all add: sameGameDoubles_def exampleLeg_def truthy_def)
  have t: "Leg.team (sameGameDoubles ! 0) \<noteq> Leg.team (sameGameDoubles ! 1)"
    by (simp add: sameGameDoubles_def exampleLeg_def)
  have "calculateParlayProbabilityIn roundDouble [sameGameDoubles ! 0, sameGameDoubles ! 1]
      = 5404319552844596 / 2 ^ 53"
    and "fst (calculateParlayPenaltiesIn roundDouble [sameGameDoubles ! 0, sameGameDoubles ! 1])
      = 4863887597560137 / 2 ^ 53"
    by (rule double_scenario [OF h])+
  then have v: "calculateParlayProbabilityIn roundDouble sameGameDoubles
      = 5404319552844596 / 2 ^ 53"
    "fst (calculateParlayPenaltiesIn roundDouble sameGameDoubles) = 4863887597560137 / 2 ^ 53"
    by (simp_all only: l [symmetric])
  from h(1-4) t show ?thesis
    unfolding v roundDouble_values by simp
qed

text \<open>
  C2 (amended). For every list of legs, \<open>calculateParlayPenalties\<close> records exactly one entry
  of type \<open>same_game\<close> for each game key that more than one leg carries, its amount being
  1 minus 0.90 raised to (count - 1); the running multiplier is the product of those
  factors times the factor the team loops contribute, and the adjusted probability is the
  base probability times that multiplier, floored at 0. Under a rounding of every literal
  and operation the same-game loop likewise multiplies the running multiplier, for each
  shared game, by the rounded factor, and records one entry whose amount is the rounded
  1 minus that factor. The game key of a leg is its game identifier, falling back to its
  game date, then to \<open>unknown\<close>. In particular, two legs that share a game identifier and
  not a team have exactly one penalty, of type \<open>same_game\<close>; their base probability is the
  product of their smoothed probabilities and the adjusted probability is the base times
  0.90. With the smoothed probabilities 0.80 and 0.75 the program, which computes in
  doubles, returns the base 0.600000000000000088817841970012523233890533447265625 and the
  adjusted probability 0.54000000000000014654943925052066333591938018798828125, the
  doubles next above those nearest to 0.60 and 0.54.
\<close>

theorem C2_same_game_penalty:
  "fst (calculateParlayPenalties ls)
     = max (calculateParlayProbability ls
             * (sameGameFactor ls * fst (teamPenalties ls (1, [])))) 0
   \<and> filter (\<lambda>p. type p = ''same_game'') (snd (calculateParlayPenalties ls))
       = map (sameGamePenalty ls) (sharedGames ls)
   \<and> distinct (sharedGames ls)
   \<and> (\<forall>k. k \<in> set (sharedGames ls) \<longleftrightarrow> 1 < count_list (map gameKeyOf ls) k)
   \<and> (\<forall>k. type (sameGamePenalty ls k) = ''same_game''
          \<and> amount (sameGamePenalty ls k) = 1 - 0.90 ^ (count_list (map gameKeyOf ls) k - 1))
   \<and> sameGameFactor ls
       = prod_list (map (\<lambda>k. 0.90 ^ (count_list (map gameKeyOf ls) k - 1)) (sharedGames ls))
   \<and> gameKeyOf leg = spec_gameKey leg
   \<and> calculateParlayProbabilityIn (\<lambda>x. x) ls = calculateParlayProbability ls
   \<and> calculateParlayPenaltiesIn (\<lambda>x. x) ls = calculateParlayPenalties ls
   \<and> fold (sameGameStepIn fl) (gameCountsOf ls) (1, [])
       = (sameGameMultiplierIn fl ls, map (sameGamePenaltyIn fl ls) (sharedGames ls))
   \<and> filter (\<lambda>p. type p = ''same_game'') (snd (calculateParlayPenaltiesIn fl ls))
       = map (sameGamePenaltyIn fl ls) (sharedGames ls)
   \<and> (\<forall>k. type (sameGamePenaltyIn fl ls k) = ''same_game''
          \<and> amount (sameGamePenaltyIn fl ls k)
              = fl (1 - fl (fl 0.90 ^ (count_list (map gameKeyOf ls) k - 1))))
   \<and> sameGameMultiplierIn fl ls
       = foldl (\<lambda>multiplier k.
                  fl (multiplier * fl (fl 0.90 ^ (count_list (map gameKeyOf ls) k - 1))))
           1 (sharedGames ls)
   \<and> (truthy (Leg.gameId l1) \<and> Leg.gameId l1 = Leg.gameId l2
        \<and> \<not> (truthy (Leg.team l1) \<and> Leg.team l1 = Leg.team l2)
      \<longrightarrow> calculateParlayProbability [l1, l2] = Leg.smoothedProb l1 * Leg.smoothedProb l2
          \<and> fst (calculateParlayPenalties [l1, l2])
              = max (Leg.smoothedProb l1 * Leg.smoothedProb l2 * 0.90) 0
          \<and> (\<exists>p. snd (calculateParlayPenalties [l1, l2]) = [p] \<and> type p = ''same_game''
                 \<and> amount p = 1 - 0.90)
          \<and> (\<exists>p. snd (calculateParlayPenaltiesIn roundDouble [l1, l2]) = [p]
                 \<and> type p = ''same_game''
                 \<and> amount p = roundDouble (1 - roundDouble 0.90))
          \<and> (Leg.smoothedProb l1 = roundDouble 0.80 \<and> Leg.smoothedProb l2 = roundDouble 0.75
              \<longrightarrow> calculateParlayProbabilityIn roundDouble [l1, l2]
                    = 5404319552844596 / 2 ^ 53
                  \<and> fst (calculateParlayPenaltiesIn roundDouble [l1, l2])
                    = 4863887597560137 / 2 ^ 53))"
proof (intro conjI allI impI)
  show "fst (calculateParlayPenalties ls)
     = max (calculateParlayProbability ls
             * (sameGameFactor ls * fst (teamPenalties ls (1, [])))) 0"
    by (simp add: calculateParlayPenalties_closed)
  show "filter (\<lambda>p. type p = ''same_game'') (snd (calculateParlayPenalties ls))
       = map (sameGamePenalty ls) (sharedGames ls)"
    by (rule sameGame_entries)
  show "distinct (sharedGames ls)"
    by (rule sharedGames_set)
  show "k \<in> set (sharedGames ls) \<longleftrightarrow> 1 < count_list (map gameKeyOf ls) k" for k
    by (simp add: sharedGames_set)
  show "type (sameGamePenalty ls k) = ''same_game''" for k
    by (rule type_sameGamePenalty)
  show "amount (sameGamePenalty ls k) = 1 - 0.90 ^ (count_list (map gameKeyOf ls) k - 1)" for k
    by (rule amount_sameGamePenalty)
  show "sameGameFactor ls
       = prod_list (map (\<lambda>k. 0.90 ^ (count_list (map gameKeyOf ls) k - 1)) (sharedGames ls))"
    by (rule sameGameFactor_def)
  show "gameKeyOf leg = spec_gameKey leg"
    by (rule gameKeyOf_spec)
  show "calculateParlayProbabilityIn (\<lambda>x. x) ls = calculateParlayProbability ls"
    by (rule exact_arithmetic)
  show "calculateParlayPenaltiesIn (\<lambda>x. x) ls = calculateParlayPenalties ls"
    by (rule exact_arithmetic)
  show "fold (sameGameStepIn fl) (gameCountsOf ls) (1, [])
       = (sameGameMultiplierIn fl ls, map (sameGamePenaltyIn fl ls) (sharedGames ls))"
    by (rule sameGame_loop_in)
  show "filter (\<lambda>p. type p = ''same_game'') (snd (calculateParlayPenaltiesIn fl ls))
       = map (sameGamePenaltyIn fl ls) (sharedGames ls)"
    by (rule sameGame_entries_in)
  show "type (sameGamePenaltyIn fl ls k) = ''same_game''" for k
    by (simp add: sameGamePenaltyIn_def Let_def)
  show "amount (sameGamePenaltyIn fl ls k)
              = fl (1 - fl (fl 0.90 ^ (count_list (map gameKeyOf ls) k - 1)))" for k
    by (simp add: sameGamePenaltyIn_def Let_def)
  show "sameGameMultiplierIn fl ls
       = foldl (\<lambda>multiplier k.
                  fl (multiplier * fl (fl 0.90 ^ (count_list (map gameKeyOf ls) k - 1))))
           1 (sharedGames ls)"
    by (rule sameGameMultiplierIn_def)
next
  assume h: "truthy (Leg.gameId l1) \<and> Leg.gameId l1 = Leg.gameId l2
        \<and> \<not> (truthy (Leg.team l1) \<and> Leg.team l1 = Leg.team l2)"
  then have a: "truthy (Leg.gameId l1)" "Leg.gameId l1 = Leg.gameId l2"
    "\<not> (truthy (Leg.team l1) \<and> Leg.team l1 = Leg.team l2)"
    by blast+
  note exact = two_legs_one_game_in [OF a, of "\<lambda>x. x", unfolded exact_arithmetic]
  show "calculateParlayProbability [l1, l2] = Leg.smoothedProb l1 * Leg.smoothedProb l2"
    using exact(1) by simp
  then show "fst (calculateParlayPenalties [l1, l2])
              = max (Leg.smoothedProb l1 * Leg.smoothedProb l2 * 0.90) 0"
    using exact(2) by simp
  show "\<exists>p. snd (calculateParlayPenalties [l1, l2]) = [p] \<and> type p = ''same_game''
                 \<and> amount p = 1 - 0.90"
    using exact(3) by simp
  show "\<exists>p. snd (calculateParlayPenaltiesIn roundDouble [l1, l2]) = [p]
                 \<and> type p = ''same_game''
                 \<and> amount p = roundDouble (1 - roundDouble 0.90)"
    using two_legs_one_game_in(3) [OF a, of roundDouble]
    by (simp add: roundDouble_literal)
  assume d: "Leg.smoothedProb l1 = roundDouble 0.80 \<and> Leg.smoothedProb l2 = roundDouble 0.75"
  then have b: "Leg.smoothedProb l1 = roundDouble 0.80" "Leg.smoothedProb l2 = roundDouble 0.75"
    by blast+
  show "calculateParlayProbabilityIn roundDouble [l1, l2] = 5404319552844596 / 2 ^ 53"
    by (rule double_scenario(1) [OF b a])
  show "fst (calculateParlayPenaltiesIn roundDouble [l1, l2]) = 4863887597560137 / 2 ^ 53"
    by (rule double_scenario(2) [OF b a])
qed

text \<open>
  Witness for C2: the two example legs of game \<open>g1\<close>, of teams KC and BUF, in exact
  arithmetic and in doubles, next to the doubles nearest to 0.60 and 0.54; two ties of the
  rounding; and the game keys of three legs that have an identifier, only a date, and
  neither.
\<close>

theorem C2_same_game_penalty_witness:
  "truthy (Leg.gameId (sameGameDoubles ! 0))
   \<and> Leg.gameId (sameGameDoubles ! 0) = Leg.gameId (sameGameDoubles ! 1)
   \<and> \<not> (truthy (Leg.team (sameGameDoubles ! 0))
          \<and> Leg.team (sameGameDoubles ! 0) = Leg.team (sameGameDoubles ! 1))
   \<and> Leg.smoothedProb (sameGameDoubles ! 0) = roundDouble 0.80
   \<and> Leg.smoothedProb (sameGameDoubles ! 1) = roundDouble 0.75
   \<and> calculateParlayProbabilityIn roundDouble sameGameDoubles
       = 0.600000000000000088817841970012523233890533447265625
   \<and> fst (calculateParlayPenaltiesIn roundDouble sameGameDoubles)
       = 0.54000000000000014654943925052066333591938018798828125
   \<and> (\<exists>p. snd (calculateParlayPenaltiesIn roundDouble sameGameDoubles) = [p]
          \<and> type p = ''same_game'')
   \<and> calculateParlayProbability sameGameLegs
       = Leg.smoothedProb (sameGameLegs ! 0) * Leg.smoothedProb (sameGameLegs ! 1)
   \<and> (\<exists>p. snd (calculateParlayPenalties sameGameLegs) = [p] \<and> type p = ''same_game'')
   \<and> roundDouble 0.60 = 5404319552844595 / 2 ^ 53
   \<and> roundDouble 0.54 = 4863887597560136 / 2 ^ 53
   \<and> roundDouble (1 + 1 / 2 ^ 53) = 1
   \<and> roundDouble (1 + 3 / 2 ^ 53) = 1 + 1 / 2 ^ 51
   \<and> sharedGames sameGameLegs = [''g1'']
   \<and> map gameKeyOf keyLegs = [''g1'', ''2024-09-08'', ''unknown'']
   \<and> map spec_gameKey keyLegs = [''g1'', ''2024-09-08'', ''unknown'']"
proof -
  have ld: "sameGameDoubles = [sameGameDoubles ! 0, sameGameDoubles ! 1]"
    by (simp add: sameGameDoubles_def)
  have le: "sameGameLegs = [sameGameLegs ! 0, sameGameLegs ! 1]"
    by (simp add: sameGameLegs_def)
  have hd: "truthy (Leg.gameId (sameGameDoubles ! 0))
   \<and> Leg.gameId (sameGameDoubles ! 0) = Leg.gameId (sameGameDoubles ! 1)
   \<and> \<not> (truthy (Leg.team (sameGameDoubles ! 0))
          \<and> Leg.team (sameGameDoubles ! 0) = Leg.team (sameGameDoubles ! 1))"
    and pd: "Leg.smoothedProb (sameGameDoubles ! 0) = roundDouble 0.80
   \<and> Leg.smoothedProb (sameGameDoubles ! 1) = roundDouble 0.75"
    by (simp_all add: sameGameDoubles_def exampleLeg_def truthy_def)
  have he: "truthy (Leg.gameId (sameGameLegs ! 0))
   \<and> Leg.gameId (sameGameLegs ! 0) = Leg.gameId (sameGameLegs ! 1)
   \<and> \<not> (truthy (Leg.team (sameGameLegs ! 0))
          \<and> Leg.team (sameGameLegs ! 0) = Leg.team (sameGameLegs ! 1))"
    by (simp add: sameGameLegs_def exampleLeg_def truthy_def)
  note cd = C2_same_game_penalty [of sameGameLegs "keyLegs ! 0" roundDouble
      "sameGameDoubles ! 0" "sameGameDoubles ! 1"]
  note ce = C2_same_game_penalty [of sameGameLegs "keyLegs ! 1" roundDouble
      "sameGameLegs ! 0" "sameGameLegs ! 1"]
  note ck = C2_same_game_penalty [of sameGameLegs "keyLegs ! 2" roundDouble
      "sameGameLegs ! 0" "sameGameLegs ! 1"]
  from cd hd pd
  have "calculateParlayProbabilityIn roundDouble [sameGameDoubles ! 0, sameGameDoubles ! 1]
        = 5404319552844596 / 2 ^ 53
      \<and> fst (calculateParlayPenaltiesIn roundDouble [sameGameDoubles ! 0, sameGameDoubles ! 1])
        = 4863887597560137 / 2 ^ 53
      \<and> (\<exists>p. snd (calculateParlayPenaltiesIn roundDouble
                    [sameGameDoubles ! 0, sameGameDoubles ! 1]) = [p]
             \<and> type p = ''same_game'')"
    by blast
  then have d: "calculateParlayProbabilityIn roundDouble sameGameDoubles
        = 5404319552844596 / 2 ^ 53
      \<and> fst (calculateParlayPenaltiesIn roundDouble sameGameDoubles)
        = 4863887597560137 / 2 ^ 53
      \<and> (\<exists>p. snd (calculateParlayPenaltiesIn roundDouble sameGameDoubles) = [p]
             \<and> type p = ''same_game'')"
    by (simp only: ld [symmetric])
  from ce he
  have "calculateParlayProbability [sameGameLegs ! 0, sameGameLegs ! 1]
        = Leg.smoothedProb (sameGameLegs ! 0) * Leg.smoothedProb (sameGameLegs ! 1)
      \<and> (\<exists>p. snd (calculateParlayPenalties [sameGameLegs ! 0, sameGameLegs ! 1]) = [p]
             \<and> type p = ''same_game'')"
    by blast
  then have e: "calculateParlayProbability sameGameLegs
        = Leg.smoothedProb (sameGameLegs ! 0) * Leg.smoothedProb (sameGameLegs ! 1)
      \<and> (\<exists>p. snd (calculateParlayPenalties sameGameLegs) = [p] \<and> type p = ''same_game'')"
    by (simp only: le [symmetric])
  have s: "sharedGames sameGameLegs = [''g1'']"
    by (simp add: sharedGames_def sameGameLegs_def exampleLeg_def gameKeyOf_def truthy_def)
  have k: "map spec_gameKey keyLegs = [''g1'', ''2024-09-08'', ''unknown'']"
    by (simp add: keyLegs_def exampleLeg_def spec_gameKey_def List.map_filter_simps)
  from cd ce ck have "[gameKeyOf (keyLegs ! 0), gameKeyOf (keyLegs ! 1), gameKeyOf (keyLegs ! 2)]
      = [spec_gameKey (keyLegs ! 0), spec_gameKey (keyLegs ! 1), spec_gameKey (keyLegs ! 2)]"
    by simp
  moreover have "map gameKeyOf keyLegs
      = [gameKeyOf (keyLegs ! 0), gameKeyOf (keyLegs ! 1), gameKeyOf (keyLegs ! 2)]"
    and "map spec_gameKey keyLegs
      = [spec_gameKey (keyLegs ! 0), spec_gameKey (keyLegs ! 1), spec_gameKey (keyLegs ! 2)]"
    by (simp_all add: keyLegs_def)
  ultimately have g: "map gameKeyOf keyLegs = map spec_gameKey keyLegs"
    by simp
  have v: "(5404319552844596 :: real) / 2 ^ 53
      = 0.600000000000000088817841970012523233890533447265625"
    "(4863887597560137 :: real) / 2 ^ 53
      = 0.54000000000000014654943925052066333591938018798828125"
    by simp_all
  from d v have dv: "calculateParlayProbabilityIn roundDouble sameGameDoubles
       = 0.600000000000000088817841970012523233890533447265625
   \<and> fst (calculateParlayPenaltiesIn roundDouble sameGameDoubles)
       = 0.54000000000000014654943925052066333591938018798828125
   \<and> (\<exists>p. snd (calculateParlayPenaltiesIn roundDouble sameGameDoubles) = [p]
          \<and> type p = ''same_game'')"
    by (simp only:)
  from g k have gk: "map gameKeyOf keyLegs = [''g1'', ''2024-09-08'', ''unknown'']"
    by (simp only:)
  from hd pd dv e s gk k roundDouble_values(4,5) roundDouble_ties(1,2) show ?thesis
    by blast
qed

text \<open>
  C10. When every leg's smoothed probability lies between 0 and 1, the adjusted probability
  lies between 0 and the base probability, the product of the legs' smoothed probabilities:
  the combined multiplier lies in (0, 1].
\<close>

theorem C10_penalties_only_decrease:
  assumes "\<forall>l \<in> set ls. 0 \<le> Leg.smoothedProb l \<and> Leg.smoothedProb l \<le> 1"
  shows "0 \<le> fst (calculateParlayPenalties ls)
         \<and> fst (calculateParlayPenalties ls) \<le> calculateParlayProbability ls
         \<and> calculateParlayProbability ls = prod_list (map Leg.smoothedProb ls)
         \<and> (\<exists>m. 0 < m \<and> m \<le> 1
               \<and> fst (calculateParlayPenalties ls) = calculateParlayProbability ls * m)"
proof -
  let ?m = "sameGameFactor ls * fst (teamPenalties ls (1, []))"
  have base: "calculateParlayProbability ls = prod_list (map Leg.smoothedProb ls)"
    by (rule calculateParlayProbability_prod)
  have b0: "0 \<le> calculateParlayProbability ls"
    unfolding base using assms prod_list_probabilities [of "map Leg.smoothedProb ls"] by auto
  have m0: "0 < ?m"
    using sameGameFactor_unit [of ls] teamPenalties_factor_pos [of ls] by simp
  have m1: "?m \<le> 1"
    using sameGameFactor_unit [of ls] teamPenalties_factor_pos [of ls]
      teamPenalties_factor_le [of ls] by (simp add: mult_le_one)
  have "0 \<le> calculateParlayProbability ls * ?m"
    using b0 m0 by simp
  then have adj: "fst (calculateParlayPenalties ls) = calculateParlayProbability ls * ?m"
    by (simp add: calculateParlayPenalties_closed)
  have "calculateParlayProbability ls * ?m \<le> calculateParlayProbability ls * 1"
    using b0 m1 by (rule mult_left_mono [rotated]) 
  then have le: "fst (calculateParlayPenalties ls) \<le> calculateParlayProbability ls"
    using adj by simp
  from adj b0 m0 have ge: "0 \<le> fst (calculateParlayPenalties ls)" by simp
  from ge le base adj m0 m1 show ?thesis by blast
qed


text \<open>Witness for C10: the two example legs of game \<open>g1\<close>.\<close>

theorem C10_penalties_only_decrease_witness:
  "list_all (\<lambda>l. 0 \<le> Leg.smoothedProb l \<and> Leg.smoothedProb l \<le> 1) sameGameLegs
   \<and> 0 \<le> fst (calculateParlayPenalties sameGameLegs)
   \<and> fst (calculateParlayPenalties sameGameLegs) \<le> calculateParlayProbability sameGameLegs
   \<and> calculateParlayProbability sameGameLegs = 0.60"
proof -
  have h: "\<forall>l \<in> set sameGameLegs. 0 \<le> Leg.smoothedProb l \<and> Leg.smoothedProb l \<le> 1"
    by (simp add: sameGameLegs_def exampleLeg_def)
  have "calculateParlayProbability sameGameLegs = 0.60"
    by (simp add: calculateParlayProbability_def sameGameLegs_def exampleLeg_def)
  with C10_penalties_only_decrease [OF h] h show ?thesis by (simp add: list_all_iff)
qed

text \<open>
  C8 (as stated, refuted). The program takes as the player's team the team of the player's
  first log in the log set, and reports "not on bye" whenever that log carries no team.
  Player \<open>p3\<close> has two logs, the first without a team and the second naming KC; no log of
  KC, and no log without a team, exists at week 3 of 2024, where only BUF plays; yet
  \<open>isOnBye\<close> is false.
\<close>

theorem C8_counterexample:
  "map GameLog.team (playerLogsOf teamlessSeason ''p3'') = [None, Some ''KC'']
   \<and> \<not> list_ex (\<lambda>lg. week lg = Some 3 \<and> season lg = Some 2024
                      \<and> (GameLog.team lg = Some ''KC'' \<or> GameLog.team lg = None))
         teamlessSeason
   \<and> \<not> isOnBye (isPlayerActive arraySort exampleTime teamlessSeason ''p3'' 3 2024)"
  using teamlessSeason_bye
  by (simp add: teamlessSeason_player)
    (simp add: teamlessSeason_def snapLog_def blankLog_def)

text \<open>
  C8 (amended). Let the host's sort obey its contract. \<open>isPlayerActive\<close> reports
  \<open>hasRecentSnaps\<close> only if the player has at least two games in the full log set, whatever
  their week and season, and two of them have a present, positive snap count; with fewer
  than two games it is false. When every game date of the player parses, it is true exactly
  when the player's logs in stable descending order of date begin with two games that both
  have a present, positive snap count, and these are then two most recent games: no other
  game of the player is more recent than either. The player's team is the team of the
  player's first log in the log set. When that log names a team, \<open>isOnBye\<close> holds exactly
  when no log of the full set has that team at the given week and season; when the player
  has no log, or the first log names no team, \<open>isOnBye\<close> is false. \<open>isActive\<close> is
  (not \<open>isOnBye\<close>) and \<open>hasRecentSnaps\<close>.
\<close>

theorem C8_player_activity:
  assumes host: "hostSort srt"
  shows
  "(hasRecentSnaps (isPlayerActive srt tm gameLogs pid wk ssn) \<longrightarrow>
        2 \<le> length (playerLogsOf gameLogs pid)
        \<and> (\<exists>a b rest. mset (playerLogsOf gameLogs pid) = mset (a # b # rest)
              \<and> (\<exists>c. snaps a = Some c \<and> 0 < c) \<and> (\<exists>c. snaps b = Some c \<and> 0 < c)))
   \<and> (length (playerLogsOf gameLogs pid) < 2 \<longrightarrow> \<not> hasRecentSnaps (isPlayerActive srt tm gameLogs pid wk ssn))
   \<and> ((\<forall>lg \<in> set (playerLogsOf gameLogs pid). tm (GameLog.gameDate lg) \<noteq> None) \<longrightarrow>
        sorted_wrt (notOlder tm) (arraySort (dateDesc tm) (playerLogsOf gameLogs pid))
        \<and> mset (arraySort (dateDesc tm) (playerLogsOf gameLogs pid)) = mset (playerLogsOf gameLogs pid)
        \<and> (hasRecentSnaps (isPlayerActive srt tm gameLogs pid wk ssn) \<longleftrightarrow>
             (\<exists>a b rest. arraySort (dateDesc tm) (playerLogsOf gameLogs pid) = a # b # rest
                \<and> (\<exists>c. snaps a = Some c \<and> 0 < c) \<and> (\<exists>c. snaps b = Some c \<and> 0 < c)))
        \<and> (hasRecentSnaps (isPlayerActive srt tm gameLogs pid wk ssn) \<longrightarrow>
             (\<exists>a b rest. mset (playerLogsOf gameLogs pid) = mset (a # b # rest)
                \<and> notOlder tm a b \<and> (\<forall>c \<in> set rest. notOlder tm a c \<and> notOlder tm b c)
                \<and> (\<exists>c. snaps a = Some c \<and> 0 < c) \<and> (\<exists>c. snaps b = Some c \<and> 0 < c))))
   \<and> (playerLogsOf gameLogs pid = [] \<longrightarrow>
        \<not> isOnBye (isPlayerActive srt tm gameLogs pid wk ssn) \<and> \<not> hasRecentSnaps (isPlayerActive srt tm gameLogs pid wk ssn) \<and> \<not> isActive (isPlayerActive srt tm gameLogs pid wk ssn))
   \<and> (\<forall>first rest. playerLogsOf gameLogs pid = first # rest \<and> truthy (GameLog.team first) \<longrightarrow>
        (isOnBye (isPlayerActive srt tm gameLogs pid wk ssn) \<longleftrightarrow>
           \<not> (\<exists>lg \<in> set gameLogs. week lg = Some wk \<and> season lg = Some ssn
                  \<and> GameLog.team lg = GameLog.team first)))
   \<and> (\<forall>first rest. playerLogsOf gameLogs pid = first # rest \<and> \<not> truthy (GameLog.team first) \<longrightarrow>
        \<not> isOnBye (isPlayerActive srt tm gameLogs pid wk ssn))
   \<and> (isActive (isPlayerActive srt tm gameLogs pid wk ssn) \<longleftrightarrow> \<not> isOnBye (isPlayerActive srt tm gameLogs pid wk ssn) \<and> hasRecentSnaps (isPlayerActive srt tm gameLogs pid wk ssn))"
proof -
  let ?st = "isPlayerActive srt tm gameLogs pid wk ssn"
  let ?pl = "playerLogsOf gameLogs pid"
  have snapsD: "hasSnaps lg \<longleftrightarrow> (\<exists>c. snaps lg = Some c \<and> 0 < c)" for lg
    by (cases "snaps lg") (simp_all add: hasSnaps_def)
  note recent = hasRecentSnaps_sorted [OF host, of tm gameLogs pid wk ssn]
  have c1: "2 \<le> length ?pl
        \<and> (\<exists>a b rest. mset ?pl = mset (a # b # rest) \<and> (\<exists>c. snaps a = Some c \<and> 0 < c) \<and> (\<exists>c. snaps b = Some c \<and> 0 < c))"
    if "hasRecentSnaps ?st"
  proof -
    from that recent obtain a b rest where
      ab: "srt (dateDesc tm) ?pl = a # b # rest" "hasSnaps a" "hasSnaps b"
      by blast
    from ab(1) have "length (srt (dateDesc tm) ?pl) = Suc (Suc (length rest))" by simp
    then have "2 \<le> length ?pl" by (simp add: hostSort_length [OF host])
    moreover have "mset ?pl = mset (a # b # rest)"
      using hostSort_mset [OF host, of "dateDesc tm" ?pl] ab(1) by simp
    ultimately show ?thesis using ab(2,3) snapsD by blast
  qed
  have c2: "\<not> hasRecentSnaps ?st" if "length ?pl < 2"
    using c1 that by auto
  have c3: "sorted_wrt (notOlder tm) (arraySort (dateDesc tm) ?pl)
        \<and> mset (arraySort (dateDesc tm) ?pl) = mset ?pl
        \<and> (hasRecentSnaps ?st \<longleftrightarrow>
             (\<exists>a b rest. arraySort (dateDesc tm) ?pl = a # b # rest \<and> (\<exists>c. snaps a = Some c \<and> 0 < c) \<and> (\<exists>c. snaps b = Some c \<and> 0 < c)))
        \<and> (hasRecentSnaps ?st \<longrightarrow>
             (\<exists>a b rest. mset ?pl = mset (a # b # rest)
                \<and> notOlder tm a b \<and> (\<forall>c \<in> set rest. notOlder tm a c \<and> notOlder tm b c)
                \<and> (\<exists>c. snaps a = Some c \<and> 0 < c) \<and> (\<exists>c. snaps b = Some c \<and> 0 < c)))"
    if dates: "\<forall>lg \<in> set ?pl. tm (GameLog.gameDate lg) \<noteq> None"
  proof (intro conjI impI)
    show s: "sorted_wrt (notOlder tm) (arraySort (dateDesc tm) ?pl)"
      using dates by (rule sorted_by_date)
    show m: "mset (arraySort (dateDesc tm) ?pl) = mset ?pl"
      by (rule mset_arraySort)
    have e: "srt (dateDesc tm) ?pl = arraySort (dateDesc tm) ?pl"
      using host dates by (rule hostSort_by_date)
    show r: "hasRecentSnaps ?st \<longleftrightarrow>
             (\<exists>a b rest. arraySort (dateDesc tm) ?pl = a # b # rest \<and> (\<exists>c. snaps a = Some c \<and> 0 < c) \<and> (\<exists>c. snaps b = Some c \<and> 0 < c))"
      unfolding recent e snapsD ..
    assume "hasRecentSnaps ?st"
    with r obtain a b rest where
      ab: "arraySort (dateDesc tm) ?pl = a # b # rest" "(\<exists>c. snaps a = Some c \<and> 0 < c)" "(\<exists>c. snaps b = Some c \<and> 0 < c)"
      by blast
    from s have "notOlder tm a b" "\<forall>c \<in> set rest. notOlder tm a c \<and> notOlder tm b c"
      unfolding ab(1) by auto
    moreover from m have "mset ?pl = mset (a # b # rest)"
      unfolding ab(1) by simp
    ultimately show "\<exists>a b rest. mset ?pl = mset (a # b # rest)
                \<and> notOlder tm a b \<and> (\<forall>c \<in> set rest. notOlder tm a c \<and> notOlder tm b c)
                \<and> (\<exists>c. snaps a = Some c \<and> 0 < c) \<and> (\<exists>c. snaps b = Some c \<and> 0 < c)"
      using ab(2,3) by blast
  qed
  have c4: "\<not> isOnBye ?st \<and> \<not> hasRecentSnaps ?st \<and> \<not> isActive ?st" if "?pl = []"
    using that by (simp add: isPlayerActive_fields)
  have c5: "isOnBye ?st \<longleftrightarrow>
           \<not> (\<exists>lg \<in> set gameLogs. week lg = Some wk \<and> season lg = Some ssn
                  \<and> GameLog.team lg = GameLog.team first)"
    if h: "?pl = first # rest \<and> truthy (GameLog.team first)" for first rest
  proof -
    from h have "first \<in> set ?pl" by simp
    then have mem: "first \<in> set gameLogs" by (simp add: playerLogsOf_def)
    from h obtain t where t: "GameLog.team first = Some t" "t \<noteq> []"
      by (auto simp: truthy_def split: option.splits)
    have same: "(truthy (GameLog.team lg) \<and> the (GameLog.team lg) = t)
                  \<longleftrightarrow> GameLog.team lg = Some t" for lg
      using t(2) by (auto simp: truthy_def split: option.splits)
    have "isOnBye ?st \<longleftrightarrow> t \<in> getByeWeekTeams gameLogs wk ssn"
      using h t by (simp add: isPlayerActive_fields(2))
    also have "\<dots> \<longleftrightarrow> \<not> (\<exists>lg \<in> set gameLogs. week lg = Some wk \<and> season lg = Some ssn
                  \<and> GameLog.team lg = Some t)"
      using mem t(1) by (auto simp: getByeWeekTeams_iff same)
    finally show ?thesis by (simp add: t(1))
  qed
  have c6: "\<not> isOnBye ?st"
    if "?pl = first # rest \<and> \<not> truthy (GameLog.team first)" for first rest
    using that by (simp add: isPlayerActive_fields(2))
  have c7: "isActive ?st \<longleftrightarrow> \<not> isOnBye ?st \<and> hasRecentSnaps ?st"
    by (rule isPlayerActive_fields(3))
  from c1 c2 c3 c4 c5 c6 c7 show ?thesis by blast
qed

text \<open>
  Witness for C8, with the insertion sort as the host's sort: player \<open>p1\<close> has snaps in
  the games of weeks 3 and 2; KC plays in week 3 and is on bye in week 4; a player without
  logs is neither on bye nor active; player \<open>p2\<close> of the second example has one game and
  no recent snaps; player \<open>p3\<close>, whose first log names no team, is not on bye.
\<close>

theorem C8_player_activity_witness:
  "hostSort (arraySort :: (GameLog \<Rightarrow> GameLog \<Rightarrow> real) \<Rightarrow> GameLog list \<Rightarrow> GameLog list)
   \<and> list_all (\<lambda>lg. exampleTime (GameLog.gameDate lg) \<noteq> None) (playerLogsOf snapSeason ''p1'')
   \<and> sorted_wrt (notOlder exampleTime)
       (arraySort (dateDesc exampleTime) (playerLogsOf snapSeason ''p1''))
   \<and> hasRecentSnaps (isPlayerActive arraySort exampleTime snapSeason ''p1'' 3 2024)
   \<and> \<not> isOnBye (isPlayerActive arraySort exampleTime snapSeason ''p1'' 3 2024)
   \<and> isActive (isPlayerActive arraySort exampleTime snapSeason ''p1'' 3 2024)
   \<and> isOnBye (isPlayerActive arraySort exampleTime snapSeason ''p1'' 4 2024)
   \<and> \<not> isActive (isPlayerActive arraySort exampleTime snapSeason ''p1'' 4 2024)
   \<and> playerLogsOf snapSeason ''p9'' = []
   \<and> \<not> isOnBye (isPlayerActive arraySort exampleTime snapSeason ''p9'' 3 2024)
   \<and> \<not> isActive (isPlayerActive arraySort exampleTime snapSeason ''p9'' 3 2024)
   \<and> length (playerLogsOf teamlessSeason ''p2'') < 2
   \<and> \<not> hasRecentSnaps (isPlayerActive arraySort exampleTime teamlessSeason ''p2'' 3 2024)
   \<and> \<not> truthy (GameLog.team (hd (playerLogsOf teamlessSeason ''p3'')))
   \<and> \<not> isOnBye (isPlayerActive arraySort exampleTime teamlessSeason ''p3'' 3 2024)"
proof -
  have host: "hostSort (arraySort :: (GameLog \<Rightarrow> GameLog \<Rightarrow> real) \<Rightarrow> GameLog list \<Rightarrow> GameLog list)"
    by (rule hostSort_arraySort)
  have dates: "\<forall>lg \<in> set (playerLogsOf snapSeason ''p1''). exampleTime (GameLog.gameDate lg) \<noteq> None"
    by (simp add: snapSeason_player snapLog_def blankLog_def exampleTime_def)
  have snaps2: "\<exists>c. snaps (snapLog ''p1'' ''2024-09-22'' ''KC'' 3 (Some 38)) = Some c \<and> 0 < c"
    "\<exists>c. snaps (snapLog ''p1'' ''2024-09-15'' ''KC'' 2 (Some 40)) = Some c \<and> 0 < c"
    by (simp_all add: snapLog_def blankLog_def)
  have team: "truthy (GameLog.team (snapLog ''p1'' ''2024-09-08'' ''KC'' 1 None))"
    by (simp add: truthy_def snapLog_def blankLog_def)
  have none: "playerLogsOf snapSeason ''p9'' = []"
    by (simp add: playerLogsOf_def snapSeason_def snapLog_def blankLog_def)
  have one: "length (playerLogsOf teamlessSeason ''p2'') < 2"
    by (simp add: playerLogsOf_def teamlessSeason_def snapLog_def blankLog_def)
  have noteam: "\<not> truthy (GameLog.team (hd (playerLogsOf teamlessSeason ''p3'')))"
    by (simp add: teamlessSeason_player snapLog_def blankLog_def truthy_def)
  note c3 = C8_player_activity [OF host, of exampleTime snapSeason "''p1''" 3 2024]
  note c4 = C8_player_activity [OF host, of exampleTime snapSeason "''p1''" 4 2024]
  note c9 = C8_player_activity [OF host, of exampleTime snapSeason "''p9''" 3 2024]
  note c2 = C8_player_activity [OF host, of exampleTime teamlessSeason "''p2''" 3 2024]
  note ct = C8_player_activity [OF host, of exampleTime teamlessSeason "''p3''" 3 2024]
  from c3 dates have s: "sorted_wrt (notOlder exampleTime)
       (arraySort (dateDesc exampleTime) (playerLogsOf snapSeason ''p1''))"
    by blast
  from c3 dates have "hasRecentSnaps (isPlayerActive arraySort exampleTime snapSeason ''p1'' 3 2024)
      \<longleftrightarrow> (\<exists>a b rest. arraySort (dateDesc exampleTime) (playerLogsOf snapSeason ''p1'')
                = a # b # rest
             \<and> (\<exists>c. snaps a = Some c \<and> 0 < c) \<and> (\<exists>c. snaps b = Some c \<and> 0 < c))"
    by blast
  with snapSeason_sorted snaps2
  have r3: "hasRecentSnaps (isPlayerActive arraySort exampleTime snapSeason ''p1'' 3 2024)"
    by blast
  from c4 dates have "hasRecentSnaps (isPlayerActive arraySort exampleTime snapSeason ''p1'' 4 2024)
      \<longleftrightarrow> (\<exists>a b rest. arraySort (dateDesc exampleTime) (playerLogsOf snapSeason ''p1'')
                = a # b # rest
             \<and> (\<exists>c. snaps a = Some c \<and> 0 < c) \<and> (\<exists>c. snaps b = Some c \<and> 0 < c))"
    by blast
  with snapSeason_sorted snaps2
  have r4: "hasRecentSnaps (isPlayerActive arraySort exampleTime snapSeason ''p1'' 4 2024)"
    by blast
  from c3 snapSeason_player team snapSeason_week3
  have b3: "\<not> isOnBye (isPlayerActive arraySort exampleTime snapSeason ''p1'' 3 2024)"
    by blast
  from c4 snapSeason_player team snapSeason_week4
  have b4: "isOnBye (isPlayerActive arraySort exampleTime snapSeason ''p1'' 4 2024)"
    by blast
  from c3 r3 b3 have a3: "isActive (isPlayerActive arraySort exampleTime snapSeason ''p1'' 3 2024)"
    by blast
  from c4 b4 have a4: "\<not> isActive (isPlayerActive arraySort exampleTime snapSeason ''p1'' 4 2024)"
    by blast
  from c9 none have n9: "\<not> isOnBye (isPlayerActive arraySort exampleTime snapSeason ''p9'' 3 2024)
      \<and> \<not> isActive (isPlayerActive arraySort exampleTime snapSeason ''p9'' 3 2024)"
    by blast
  from c2 one
  have r2: "\<not> hasRecentSnaps (isPlayerActive arraySort exampleTime teamlessSeason ''p2'' 3 2024)"
    by blast
  from teamlessSeason_player noteam
  have "\<exists>first rest. playerLogsOf teamlessSeason ''p3'' = first # rest
      \<and> \<not> truthy (GameLog.team first)"
    by simp
  with ct have bt: "\<not> isOnBye (isPlayerActive arraySort exampleTime teamlessSeason ''p3'' 3 2024)"
    by blast
  from host dates s r3 b3 a3 b4 a4 none n9 one r2 noteam bt show ?thesis
    by (simp add: list_all_iff)
qed

text \<open>
  C9. For every raw record and each of the five tracked fields, the normalized value is the
  field's own value when that is present (neither missing nor null), so a present canonical
  value is never overwritten; otherwise it is the first present value among the field's
  alternate names, and zero when there is none. Hence every normalized record has all five
  fields defined. Every other property is left as it was. The alternates are
  \<open>passing_yards\<close>, \<open>rushing_yards\<close>, \<open>receiving_yards\<close>, \<open>rec\<close>, and \<open>passing_tds\<close> before
  \<open>pass_td\<close>.
\<close>

theorem C9_normalize_stat_fields:
  "(\<forall>f \<in> set expectedStatFields.
      getProp (normalizeGameLog g) f = spec_normalized g f
      \<and> \<not> isNullish (getProp (normalizeGameLog g) f)
      \<and> (\<not> isNullish (getProp g f) \<longrightarrow> getProp (normalizeGameLog g) f = getProp g f)
      \<and> (isNullish (getProp g f) \<and> (\<forall>a \<in> set (alternatesOf f). isNullish (getProp g a))
            \<longrightarrow> getProp (normalizeGameLog g) f = JNumber 0))
   \<and> (\<forall>k. k \<notin> set expectedStatFields \<longrightarrow> normalizeGameLog g k = g k)
   \<and> map (\<lambda>f. (f, alternatesOf f)) expectedStatFields
       = [(''pass_yards'', [''passing_yards'']), (''rush_yards'', [''rushing_yards'']),
          (''rec_yards'', [''receiving_yards'']), (''receptions'', [''rec'']),
          (''pass_tds'', [''passing_tds'', ''pass_td''])]"
proof (intro conjI ballI allI impI)
  fix f assume f: "f \<in> set expectedStatFields"
  show eq: "getProp (normalizeGameLog g) f = spec_normalized g f"
    by (rule normalizeGameLog_field [OF f])
  show "\<not> isNullish (getProp (normalizeGameLog g) f)"
    by (simp add: eq spec_normalized_defined)
  show "getProp (normalizeGameLog g) f = getProp g f" if "\<not> isNullish (getProp g f)"
    using that by (simp add: eq spec_normalized_def)
  show "getProp (normalizeGameLog g) f = JNumber 0"
    if "isNullish (getProp g f) \<and> (\<forall>a \<in> set (alternatesOf f). isNullish (getProp g a))"
  proof -
    from that have "find (\<lambda>v. \<not> isNullish v)
             (getProp g f # map (getProp g) (alternatesOf f)) = None"
      by (auto simp: find_None_iff)
    then show ?thesis by (simp add: eq spec_normalized_def)
  qed
next
  fix k assume "k \<notin> set expectedStatFields"
  then show "normalizeGameLog g k = g k"
    by (rule normalizeGameLog_other)
next
  show "map (\<lambda>f. (f, alternatesOf f)) expectedStatFields
       = [(''pass_yards'', [''passing_yards'']), (''rush_yards'', [''rushing_yards'']),
          (''rec_yards'', [''receiving_yards'']), (''receptions'', [''rec'']),
          (''pass_tds'', [''passing_tds'', ''pass_td''])]"
    by (simp add: expectedStatFields_def alternatesOf_def statMappings_def)
qed


text \<open>Witness for C9: the example record, field by field.\<close>

theorem C9_normalize_stat_fields_witness:
  "''pass_yards'' \<in> set expectedStatFields \<and> ''rush_yards'' \<in> set expectedStatFields
   \<and> ''rec_yards'' \<in> set expectedStatFields \<and> ''pass_tds'' \<in> set expectedStatFields
   \<and> isNullish (getProp rawExample ''pass_yards'')
   \<and> getProp (normalizeGameLog rawExample) ''pass_yards'' = JNumber 250
   \<and> \<not> isNullish (getProp rawExample ''rush_yards'')
   \<and> getProp (normalizeGameLog rawExample) ''rush_yards'' = JNumber 12
   \<and> list_all (\<lambda>a. isNullish (getProp rawExample a)) (alternatesOf ''rec_yards'')
   \<and> isNullish (getProp rawExample ''rec_yards'')
   \<and> getProp (normalizeGameLog rawExample) ''rec_yards'' = JNumber 0
   \<and> getProp (normalizeGameLog rawExample) ''pass_tds'' = JNumber 2
   \<and> ''playerId'' \<notin> set expectedStatFields
   \<and> normalizeGameLog rawExample ''playerId'' = Some (JString ''p1'')"
proof -
  have fields: "''pass_yards'' \<in> set expectedStatFields" "''rush_yards'' \<in> set expectedStatFields"
    "''rec_yards'' \<in> set expectedStatFields" "''pass_tds'' \<in> set expectedStatFields"
    and other: "''playerId'' \<notin> set expectedStatFields"
    by (simp_all add: expectedStatFields_def)
  have vals: "spec_normalized rawExample ''pass_yards'' = JNumber 250"
    "spec_normalized rawExample ''rush_yards'' = JNumber 12"
    "spec_normalized rawExample ''rec_yards'' = JNumber 0"
    "spec_normalized rawExample ''pass_tds'' = JNumber 2"
    "isNullish (getProp rawExample ''pass_yards'')"
    "\<not> isNullish (getProp rawExample ''rush_yards'')"
    "isNullish (getProp rawExample ''rec_yards'')"
    "list_all (\<lambda>a. isNullish (getProp rawExample a)) (alternatesOf ''rec_yards'')"
    "rawExample ''playerId'' = Some (JString ''p1'')"
    by (simp_all add: spec_normalized_def alternatesOf_def statMappings_def rawExample_def
        getProp_def isNullish_def)
  note c = C9_normalize_stat_fields [of rawExample]
  from c have f: "getProp (normalizeGameLog rawExample) f = spec_normalized rawExample f"
    if "f \<in> set expectedStatFields" for f
    using that by blast
  from c have k: "normalizeGameLog rawExample k = rawExample k"
    if "k \<notin> set expectedStatFields" for k
    using that by blast
  show ?thesis
    using fields other vals f [OF fields(1)] f [OF fields(2)] f [OF fields(3)] f [OF fields(4)]
      k [OF other]
    by simp
qed

end
